theory Spec2Isabelle
  imports Main
begin

section \<open>Decoded JSON values and the Python built-ins the manifest handler applies to them\<close>

text \<open>
  The manifest handler (\<^verbatim>\<open>lambda/manifest/lambda_function.py\<close>) works on what
  \<^verbatim>\<open>json.loads\<close> returns: \<^verbatim>\<open>None\<close>, \<^verbatim>\<open>bool\<close>, \<^verbatim>\<open>int\<close>, \<^verbatim>\<open>float\<close>, \<^verbatim>\<open>str\<close>,
  \<^verbatim>\<open>list\<close> and \<^verbatim>\<open>dict\<close>. A dict keeps insertion order and has each key once, so it is
  an association list in that order. Strings are sequences of code points below 256.
  Exceptions are values of \<open>exn\<close>; a computation that may raise returns \<open>exn + 'a\<close>.
\<close>

datatype exn =
  ValueError | TypeError | OverflowError | KeyError | IndexError | AttributeError
  | RuntimeError | JSONDecodeError

text \<open>
  A float is held by what the two conversions of the schemas observe of it: the text
  \<^verbatim>\<open>repr\<close> prints, and what \<^verbatim>\<open>int\<close> makes of it (the truncation, \<open>ValueError\<close> for
  a NaN, \<open>OverflowError\<close> for an infinity).
\<close>

datatype pyfloat = PyFloat (float_repr: string) (float_int: "exn + int")

datatype json =
  JNull
  | JBool bool
  | JInt int
  | JFloat pyfloat
  | JStr string
  | JList "json list"
  | JObj "(string \<times> json) list"

subsection \<open>\<^verbatim>\<open>str\<close> and \<^verbatim>\<open>repr\<close>\<close>

fun digit_char :: "nat \<Rightarrow> char" where
  "digit_char n = ''0123456789abcdef'' ! (n mod 16)"

function int_digits :: "int \<Rightarrow> string" where
  "int_digits i =
     (if i < 10 then [digit_char (nat i)] else int_digits (i div 10) @ [digit_char (nat (i mod 10))])"
  by pat_completeness auto
termination
  by (relation "measure nat") auto

definition int_repr :: "int \<Rightarrow> string" where
  "int_repr i = (if i < 0 then CHR ''-'' # int_digits (- i) else int_digits i)"

definition hex_escape :: "char \<Rightarrow> string" where
  "hex_escape c = [CHR 0x5C, CHR ''x'', digit_char (of_char c div 16), digit_char (of_char c mod 16)]"

definition printable :: "char \<Rightarrow> bool" where
  "printable c = (let n = (of_char c :: nat) in (32 \<le> n \<and> n < 127) \<or> (161 \<le> n \<and> n \<noteq> 173))"

definition escape_char :: "char \<Rightarrow> char \<Rightarrow> string" where
  "escape_char quote c =
     (if c = quote \<or> c = CHR 0x5C then [CHR 0x5C, c]
      else if c = CHR 0x09 then [CHR 0x5C, CHR ''t'']
      else if c = CHR 0x0A then [CHR 0x5C, CHR ''n'']
      else if c = CHR 0x0D then [CHR 0x5C, CHR ''r'']
      else if printable c then [c]
      else hex_escape c)"

definition str_repr :: "string \<Rightarrow> string" where
  "str_repr s =
     (let quote = (if CHR 0x27 \<in> set s \<and> CHR 0x22 \<notin> set s then CHR 0x22 else CHR 0x27)
      in [quote] @ concat (map (escape_char quote) s) @ [quote])"

text \<open>The text that \<^verbatim>\<open>repr\<close> and \<^verbatim>\<open>str\<close> print for a value, when they print it.\<close>

fun repr_text :: "json \<Rightarrow> string"
  and repr_elems :: "json list \<Rightarrow> string"
  and repr_items :: "(string \<times> json) list \<Rightarrow> string"
where
  "repr_text JNull = ''None''"
| "repr_text (JBool b) = (if b then ''True'' else ''False'')"
| "repr_text (JInt i) = int_repr i"
| "repr_text (JFloat f) = float_repr f"
| "repr_text (JStr s) = str_repr s"
| "repr_text (JList xs) = ''['' @ repr_elems xs @ '']''"
| "repr_text (JObj kvs) = ''{'' @ repr_items kvs @ ''}''"
| "repr_elems [] = []"
| "repr_elems [x] = repr_text x"
| "repr_elems (x # y # xs) = repr_text x @ '', '' @ repr_elems (y # xs)"
| "repr_items [] = []"
| "repr_items [(k, v)] = str_repr k @ '': '' @ repr_text v"
| "repr_items ((k, v) # kv # kvs) = str_repr k @ '': '' @ repr_text v @ '', '' @ repr_items (kv # kvs)"

fun str_text :: "json \<Rightarrow> string" where
  "str_text (JStr s) = s"
| "str_text v = repr_text v"

text \<open>
  The interpreter (Python 3.13) refuses to turn an \<^verbatim>\<open>int\<close> of more than
  \<open>max_str_digits\<close> decimal digits into text, and to read one from text, with
  \<open>ValueError\<close>. \<open>exceeds_str_digits\<close> says that a value holds such an \<^verbatim>\<open>int\<close>, at any
  depth: printing the value then meets it.
\<close>

definition max_str_digits :: nat where
  "max_str_digits = 4300"

fun exceeds_str_digits :: "json \<Rightarrow> bool"
  and exceeds_elems :: "json list \<Rightarrow> bool"
  and exceeds_items :: "(string \<times> json) list \<Rightarrow> bool"
where
  "exceeds_str_digits JNull = False"
| "exceeds_str_digits (JBool b) = False"
| "exceeds_str_digits (JInt i) = (length (int_digits \<bar>i\<bar>) > max_str_digits)"
| "exceeds_str_digits (JFloat f) = False"
| "exceeds_str_digits (JStr s) = False"
| "exceeds_str_digits (JList xs) = exceeds_elems xs"
| "exceeds_str_digits (JObj kvs) = exceeds_items kvs"
| "exceeds_elems [] = False"
| "exceeds_elems (x # xs) = (exceeds_str_digits x \<or> exceeds_elems xs)"
| "exceeds_items [] = False"
| "exceeds_items ((k, v) # kvs) = (exceeds_str_digits v \<or> exceeds_items kvs)"

text \<open>\<^verbatim>\<open>str(v)\<close>, also what an f-string field \<^verbatim>\<open>{v}\<close> evaluates.\<close>

definition py_str :: "json \<Rightarrow> exn + string" where
  "py_str v = (if exceeds_str_digits v then Inl ValueError else Inr (str_text v))"

text \<open>
  \<^verbatim>\<open>json.dumps(v)\<close>, held by the value it serialises. It prints every \<^verbatim>\<open>int\<close> of the
  value, so it raises like \<^verbatim>\<open>str\<close>; every other decoded value is serialised (a NaN and
  the infinities too, by default).
\<close>

definition json_dumps :: "json \<Rightarrow> exn + json" where
  "json_dumps v = (if exceeds_str_digits v then Inl ValueError else Inr v)"

subsection \<open>\<^verbatim>\<open>int\<close>\<close>

text \<open>
  The characters \<^verbatim>\<open>int\<close> skips around a literal: the six ASCII whitespace characters,
  and the whitespace characters above 127 (below 256 these are U+0085 and U+00A0),
  which it reads as spaces. The separators U+001C to U+001F are not among them.
\<close>

definition int_space :: "char \<Rightarrow> bool" where
  "int_space c = (of_char c \<in> {9, 10, 11, 12, 13, 32, 133, 160 :: nat})"

definition int_strip :: "string \<Rightarrow> string" where
  "int_strip s = rev (dropWhile int_space (rev (dropWhile int_space s)))"

definition is_digit :: "char \<Rightarrow> bool" where
  "is_digit c = (48 \<le> (of_char c :: nat) \<and> (of_char c :: nat) \<le> 57)"

definition digit_val :: "char \<Rightarrow> nat" where
  "digit_val c = of_char c - 48"

text \<open>Decimal digits, with single underscores allowed between two digits.\<close>

fun parse_digits :: "nat \<Rightarrow> string \<Rightarrow> nat option" where
  "parse_digits acc [] = None"
| "parse_digits acc [c] = (if is_digit c then Some (10 * acc + digit_val c) else None)"
| "parse_digits acc (c # c' # cs) =
     (if is_digit c then
        (if c' = CHR ''_'' then parse_digits (10 * acc + digit_val c) cs
         else parse_digits (10 * acc + digit_val c) (c' # cs))
      else None)"

text \<open>
  \<^verbatim>\<open>int(s)\<close> for a string, base 10: surrounding whitespace is dropped, one sign is
  allowed, and a literal of more than \<open>max_str_digits\<close> digits is refused.
  \<open>None\<close> stands for \<open>ValueError\<close>.
\<close>

definition int_of_str :: "string \<Rightarrow> int option" where
  "int_of_str s =
     (let t = int_strip s;
          (neg, body) = (case t of
                           c # cs \<Rightarrow> if c = CHR ''-'' then (True, cs)
                                     else if c = CHR ''+'' then (False, cs) else (False, t)
                         | [] \<Rightarrow> (False, t))
      in if length (filter is_digit body) > max_str_digits then None
         else (case parse_digits 0 body of
                 None \<Rightarrow> None
               | Some n \<Rightarrow> Some (if neg then - int n else int n)))"

fun py_int :: "json \<Rightarrow> exn + int" where
  "py_int JNull = Inl TypeError"
| "py_int (JBool b) = Inr (if b then 1 else 0)"
| "py_int (JInt i) = Inr i"
| "py_int (JFloat f) = float_int f"
| "py_int (JStr s) = (case int_of_str s of None \<Rightarrow> Inl ValueError | Some i \<Rightarrow> Inr i)"
| "py_int (JList xs) = Inl TypeError"
| "py_int (JObj kvs) = Inl TypeError"

section \<open>Schema registry\<close>

datatype pytype = TStr | TInt

type_synonym schema = "(string \<times> pytype) list"

definition RUN_MANIFEST_SCHEMA :: schema where
  "RUN_MANIFEST_SCHEMA =
     [(''arn'', TStr), (''creationTime'', TStr), (''digest'', TStr), (''failureReason'', TStr),
      (''metrics'', TStr), (''name'', TStr), (''outputUri'', TStr), (''parameterTemplate'', TStr),
      (''parameters'', TStr), (''resourceDigests'', TStr), (''roleArn'', TStr),
      (''startTime'', TStr), (''startedBy'', TStr), (''status'', TStr), (''statusMessage'', TStr),
      (''stopTime'', TStr), (''storageType'', TStr), (''uuid'', TStr), (''workflow'', TStr)]"

definition TASK_MANIFEST_SCHEMA :: schema where
  "TASK_MANIFEST_SCHEMA =
     [(''arn'', TStr), (''cpus'', TInt), (''creationTime'', TStr), (''failureReason'', TStr),
      (''gpus'', TInt), (''image'', TStr), (''instanceType'', TStr), (''memory'', TInt),
      (''metrics'', TStr), (''name'', TStr), (''run'', TStr), (''startTime'', TStr),
      (''status'', TStr), (''statusMessage'', TStr), (''stopTime'', TStr), (''uuid'', TStr),
      (''workflow'', TStr)]"

section \<open>Type coercion: \<^verbatim>\<open>convert_data_types\<close>\<close>

text \<open>\<^verbatim>\<open>target_type(value)\<close> and \<^verbatim>\<open>target_type.__name__\<close>.\<close>

fun apply_type :: "pytype \<Rightarrow> json \<Rightarrow> exn + json" where
  "apply_type TStr v = (case py_str v of Inl e \<Rightarrow> Inl e | Inr s \<Rightarrow> Inr (JStr s))"
| "apply_type TInt v = (case py_int v of Inl e \<Rightarrow> Inl e | Inr i \<Rightarrow> Inr (JInt i))"

fun type_name :: "pytype \<Rightarrow> string" where
  "type_name TStr = ''str''"
| "type_name TInt = ''int''"

text \<open>The line printed for a conversion that raised \<open>ValueError\<close>; its f-string prints the value.\<close>

definition could_not_convert :: "json \<Rightarrow> string \<Rightarrow> pytype \<Rightarrow> exn + string" where
  "could_not_convert v key t =
     (case py_str v of
        Inl e \<Rightarrow> Inl e
      | Inr s \<Rightarrow>
          Inr (''Could not convert value '' @ [CHR 0x27] @ s @ [CHR 0x27] @ '' for key '' @ [CHR 0x27] @ key
                 @ [CHR 0x27] @ '' to type '' @ [CHR 0x27] @ type_name t @ [CHR 0x27]))"

fun is_container :: "json \<Rightarrow> bool" where
  "is_container (JObj kvs) = True"
| "is_container (JList xs) = True"
| "is_container v = False"

text \<open>
  The function mutates \<open>data\<close> in place and returns it; a decoded JSON value is a tree
  with no sharing, so the returned value is all there is to observe, together with the
  lines printed (one for each conversion that raised \<open>ValueError\<close>). Any other
  exception of a conversion leaves the function: only \<open>ValueError\<close> is caught. So does
  an exception raised while the line is printed.
  \<open>convert_items\<close> is the loop over \<^verbatim>\<open>data.items()\<close>, \<open>convert_elems\<close> the loop over a
  list.
\<close>

fun convert_data_types :: "json \<Rightarrow> schema \<Rightarrow> exn + (json \<times> string list)"
  and convert_items :: "(string \<times> json) list \<Rightarrow> schema \<Rightarrow> exn + ((string \<times> json) list \<times> string list)"
  and convert_elems :: "json list \<Rightarrow> schema \<Rightarrow> exn + (json list \<times> string list)"
where
  "convert_data_types (JObj kvs) type_mapping =
     (case convert_items kvs type_mapping of
        Inl e \<Rightarrow> Inl e
      | Inr (kvs', out) \<Rightarrow> Inr (JObj kvs', out))"
| "convert_data_types (JList xs) type_mapping =
     (case convert_elems xs type_mapping of
        Inl e \<Rightarrow> Inl e
      | Inr (xs', out) \<Rightarrow> Inr (JList xs', out))"
| "convert_data_types JNull type_mapping = Inr (JNull, [])"
| "convert_data_types (JBool b) type_mapping = Inr (JBool b, [])"
| "convert_data_types (JInt i) type_mapping = Inr (JInt i, [])"
| "convert_data_types (JFloat f) type_mapping = Inr (JFloat f, [])"
| "convert_data_types (JStr s) type_mapping = Inr (JStr s, [])"
| "convert_items [] type_mapping = Inr ([], [])"
| "convert_items ((key, value) # rest) type_mapping =
     (case (case map_of type_mapping key of
              Some target_type \<Rightarrow>
                (if value \<noteq> JNull then
                   (case apply_type target_type value of
                      Inr v \<Rightarrow> Inr (v, [])
                    | Inl ValueError \<Rightarrow>
                        (case could_not_convert value key target_type of
                           Inl e \<Rightarrow> Inl e
                         | Inr line \<Rightarrow> Inr (value, [line]))
                    | Inl e \<Rightarrow> Inl e)
                 else Inr (JNull, []))
            | None \<Rightarrow>
                (if is_container value then convert_data_types value type_mapping
                 else Inr (value, []))) of
        Inl e \<Rightarrow> Inl e
      | Inr (v, out) \<Rightarrow>
          (case convert_items rest type_mapping of
             Inl e \<Rightarrow> Inl e
           | Inr (rest', out') \<Rightarrow> Inr ((key, v) # rest', out @ out')))"
| "convert_elems [] type_mapping = Inr ([], [])"
| "convert_elems (item # rest) type_mapping =
     (case (if is_container item then convert_data_types item type_mapping else Inr (item, [])) of
        Inl e \<Rightarrow> Inl e
      | Inr (v, out) \<Rightarrow>
          (case convert_elems rest type_mapping of
             Inl e \<Rightarrow> Inl e
           | Inr (rest', out') \<Rightarrow> Inr (v # rest', out @ out')))"

text \<open>The body of the loop over \<^verbatim>\<open>data.items()\<close>, for one key and its value.\<close>

definition convert_field :: "string \<Rightarrow> json \<Rightarrow> schema \<Rightarrow> exn + (json \<times> string list)" where
  "convert_field key value type_mapping =
     (case map_of type_mapping key of
        Some target_type \<Rightarrow>
          (if value \<noteq> JNull then
             (case apply_type target_type value of
                Inr v \<Rightarrow> Inr (v, [])
              | Inl ValueError \<Rightarrow>
                  (case could_not_convert value key target_type of
                     Inl e \<Rightarrow> Inl e
                   | Inr line \<Rightarrow> Inr (value, [line]))
              | Inl e \<Rightarrow> Inl e)
           else Inr (JNull, []))
      | None \<Rightarrow>
          (if is_container value then convert_data_types value type_mapping
           else Inr (value, [])))"

section \<open>Record classifier\<close>

text \<open>\<^verbatim>\<open>sub in s\<close> on strings: \<open>sub\<close> occurs in \<open>s\<close> as a contiguous run.\<close>

fun starts_with :: "string \<Rightarrow> string \<Rightarrow> bool" where
  "starts_with [] s = True"
| "starts_with (c # cs) [] = False"
| "starts_with (c # cs) (d # ds) = (c = d \<and> starts_with cs ds)"

fun contains :: "string \<Rightarrow> string \<Rightarrow> bool" where
  "contains sub [] = (sub = [])"
| "contains sub (c # cs) = (starts_with sub (c # cs) \<or> contains sub cs)"

text \<open>
  \<^verbatim>\<open>sub in v\<close> for a decoded value \<open>v\<close>: substring test on a string, element test on a
  list, key test on a dict, \<open>TypeError\<close> on anything else.
\<close>

fun py_in :: "string \<Rightarrow> json \<Rightarrow> exn + bool" where
  "py_in sub (JStr s) = Inr (contains sub s)"
| "py_in sub (JList xs) = Inr (JStr sub \<in> set xs)"
| "py_in sub (JObj kvs) = Inr (sub \<in> set (map fst kvs))"
| "py_in sub v = Inl TypeError"

datatype record_kind = Run | Task | Unknown

text \<open>
  The \<^verbatim>\<open>if\<close>/\<^verbatim>\<open>elif\<close>/\<^verbatim>\<open>else\<close> chain of the handler on \<^verbatim>\<open>event_message['arn']\<close>: the
  test for \<^verbatim>\<open>:run/\<close> comes first.
\<close>

definition classify :: "json \<Rightarrow> exn + record_kind" where
  "classify arn =
     (case py_in '':run/'' arn of
        Inl e \<Rightarrow> Inl e
      | Inr True \<Rightarrow> Inr Run
      | Inr False \<Rightarrow>
          (case py_in '':task/'' arn of
             Inl e \<Rightarrow> Inl e
           | Inr True \<Rightarrow> Inr Task
           | Inr False \<Rightarrow> Inr Unknown))"

section \<open>The log service and the object store\<close>

text \<open>
  The CloudWatch Logs client is a collaborator: it is given as the page it returns to
  the \<open>n\<close>-th request of one pagination, for the parameters of that request. A missing
  \<^verbatim>\<open>logStreams\<close> or \<^verbatim>\<open>events\<close> entry is the empty list, a missing token is \<open>None\<close>.
  Faults raised inside the SDK are not part of the model. The text of a log event is
  held by what \<^verbatim>\<open>json.loads\<close> makes of it: the decoded value, or the exception it raises
  (\<open>JSONDecodeError\<close> for a text that is not JSON, \<open>ValueError\<close> for an integer literal
  of more than \<open>max_str_digits\<close> digits).
\<close>

record log_stream =
  logStreamName :: string
  lastEventTimestamp :: int

record log_event =
  timestamp :: int
  message :: "exn + json"

record describe_params =
  dls_logGroupName :: string
  dls_logStreamNamePrefix :: string
  dls_orderBy :: string
  dls_descending :: bool
  dls_limit :: "int option"
  dls_nextToken :: "string option"

record describe_response =
  logStreams :: "log_stream list"
  nextToken :: "string option"

record events_params =
  gle_logGroupName :: string
  gle_logStreamName :: string
  gle_startFromHead :: bool
  gle_startTime :: "int option"
  gle_endTime :: "int option"
  gle_nextToken :: "string option"

record events_response =
  events :: "log_event list"
  nextForwardToken :: "string option"

record logs_client =
  describe_log_streams :: "nat \<Rightarrow> describe_params \<Rightarrow> describe_response"
  get_log_events :: "nat \<Rightarrow> events_params \<Rightarrow> events_response"

text \<open>\<^verbatim>\<open>boto3.Session(profile_name, region_name).client('logs')\<close>.\<close>

type_synonym sessions = "string option \<Rightarrow> string \<Rightarrow> logs_client"

text \<open>Truth values of an optional string and of an optional integer.\<close>

fun truthy :: "string option \<Rightarrow> bool" where
  "truthy None = False"
| "truthy (Some s) = (s \<noteq> [])"

fun truthy_int :: "int option \<Rightarrow> bool" where
  "truthy_int None = False"
| "truthy_int (Some i) = (i \<noteq> 0)"

text \<open>
  The object store, as the sequence of put requests it has received: bucket, key and the
  value whose serialisation is the body. A put that the store refuses is not part of the
  model; \<^verbatim>\<open>write_json_to_s3\<close> raises only if \<^verbatim>\<open>json.dumps\<close> does, before the put.
\<close>

type_synonym s3 = "(string \<times> string \<times> json) list"

definition write_json_to_s3 :: "string \<Rightarrow> string \<Rightarrow> json \<Rightarrow> s3 \<Rightarrow> (exn + unit) \<times> s3" where
  "write_json_to_s3 bucket_name file_name json_data store =
     (case json_dumps json_data of
        Inl e \<Rightarrow> (Inl e, store)
      | Inr serialised \<Rightarrow> (Inr (), store @ [(bucket_name, file_name, serialised)]))"

text \<open>What an object holds after the puts: the body of the last put to its key.\<close>

fun s3_object :: "s3 \<Rightarrow> string \<Rightarrow> string \<Rightarrow> json option" where
  "s3_object [] bucket key = None"
| "s3_object ((b, k, body) # puts) bucket key =
     (case s3_object puts bucket key of
        Some later \<Rightarrow> Some later
      | None \<Rightarrow> if b = bucket \<and> k = key then Some body else None)"

section \<open>Log stream locator: \<^verbatim>\<open>find_log_streams_by_prefix\<close>\<close>

text \<open>\<^verbatim>\<open>limit and len(all_streams) >= limit\<close> and \<^verbatim>\<open>limit and len(all_streams) > limit\<close>.\<close>

definition limit_reached :: "int option \<Rightarrow> nat \<Rightarrow> bool" where
  "limit_reached limit n = (case limit of None \<Rightarrow> False | Some l \<Rightarrow> l \<noteq> 0 \<and> int n \<ge> l)"

definition limit_exceeded :: "int option \<Rightarrow> nat \<Rightarrow> bool" where
  "limit_exceeded limit n = (case limit of None \<Rightarrow> False | Some l \<Rightarrow> l \<noteq> 0 \<and> int n > l)"

text \<open>\<^verbatim>\<open>xs[:l]\<close>: a negative \<open>l\<close> counts from the end.\<close>

definition slice_to :: "'a list \<Rightarrow> int \<Rightarrow> 'a list" where
  "slice_to xs l = (if 0 \<le> l then take (nat l) xs else take (nat (int (length xs) + l)) xs)"

text \<open>
  The \<^verbatim>\<open>while True\<close> loop. It may run forever, so it returns an option: \<open>None\<close> is
  the run that never leaves the loop.
\<close>

partial_function (option) describe_loop ::
  "(nat \<Rightarrow> describe_params \<Rightarrow> describe_response) \<Rightarrow> int option \<Rightarrow> nat \<Rightarrow> describe_params
    \<Rightarrow> string option \<Rightarrow> log_stream list \<Rightarrow> log_stream list option"
where
  "describe_loop client limit n params next_token all_streams =
     (let params' = (if truthy next_token then params\<lparr>dls_nextToken := next_token\<rparr> else params);
          response = client n params';
          all_streams' = all_streams @ logStreams response;
          next_token' = nextToken response
      in if \<not> truthy next_token' \<or> limit_reached limit (length all_streams') then Some all_streams'
         else describe_loop client limit (Suc n) params' next_token' all_streams')"

declare describe_loop.simps [code]

definition describe_request :: "string \<Rightarrow> string \<Rightarrow> int option \<Rightarrow> string \<Rightarrow> bool \<Rightarrow> describe_params" where
  "describe_request log_group_name prefix limit order_by descending =
     \<lparr>dls_logGroupName = log_group_name, dls_logStreamNamePrefix = prefix, dls_orderBy = order_by,
      dls_descending = descending, dls_limit = (if truthy_int limit then limit else None),
      dls_nextToken = None\<rparr>"

definition find_log_streams_by_prefix ::
  "sessions \<Rightarrow> string \<Rightarrow> string \<Rightarrow> string \<Rightarrow> int option \<Rightarrow> string \<Rightarrow> bool \<Rightarrow> string option
    \<Rightarrow> log_stream list option"
where
  "find_log_streams_by_prefix session log_group_name prefix region limit order_by descending profile_name =
     (let logs_client = session (if truthy profile_name then profile_name else None) region;
          params = describe_request log_group_name prefix limit order_by descending
      in case describe_loop (describe_log_streams logs_client) limit 0 params None [] of
           None \<Rightarrow> None
         | Some all_streams \<Rightarrow>
             Some (if limit_exceeded limit (length all_streams)
                   then slice_to all_streams (case limit of Some l \<Rightarrow> l | None \<Rightarrow> 0)
                   else all_streams))"

section \<open>Log event aggregator: \<^verbatim>\<open>get_log_events_by_stream_prefix\<close>\<close>

partial_function (option) events_loop ::
  "(nat \<Rightarrow> events_params \<Rightarrow> events_response) \<Rightarrow> nat \<Rightarrow> events_params \<Rightarrow> string option
    \<Rightarrow> log_event list \<Rightarrow> log_event list option"
where
  "events_loop client n params next_token stream_events =
     (let params' = (if truthy next_token then params\<lparr>gle_nextToken := next_token\<rparr> else params);
          response = client n params';
          stream_events' = stream_events @ events response;
          next_token' = nextForwardToken response
      in if \<not> truthy next_token' \<or> next_token' = gle_nextToken params' then Some stream_events'
         else events_loop client (Suc n) params' next_token' stream_events')"

declare events_loop.simps [code]

definition events_request :: "string \<Rightarrow> string \<Rightarrow> int option \<Rightarrow> int option \<Rightarrow> events_params" where
  "events_request log_group_name stream_name start_time end_time =
     \<lparr>gle_logGroupName = log_group_name, gle_logStreamName = stream_name, gle_startFromHead = True,
      gle_startTime = (if truthy_int start_time then start_time else None),
      gle_endTime = (if truthy_int end_time then end_time else None),
      gle_nextToken = None\<rparr>"

text \<open>\<^verbatim>\<open>d[k] = v\<close> on an insertion-ordered dict.\<close>

fun dict_set :: "('k \<times> 'v) list \<Rightarrow> 'k \<Rightarrow> 'v \<Rightarrow> ('k \<times> 'v) list" where
  "dict_set [] k v = [(k, v)]"
| "dict_set ((k', v') # kvs) k v = (if k' = k then (k, v) # kvs else (k', v') # dict_set kvs k v)"

text \<open>The \<^verbatim>\<open>for stream in streams\<close> loop, filling \<^verbatim>\<open>all_events\<close>.\<close>

fun fetch_streams ::
  "(nat \<Rightarrow> events_params \<Rightarrow> events_response) \<Rightarrow> string \<Rightarrow> int option \<Rightarrow> int option \<Rightarrow> log_stream list
    \<Rightarrow> (string \<times> log_event list) list \<Rightarrow> (string \<times> log_event list) list option"
where
  "fetch_streams client log_group_name start_time end_time [] all_events = Some all_events"
| "fetch_streams client log_group_name start_time end_time (stream # rest) all_events =
     (let stream_name = logStreamName stream;
          params = events_request log_group_name stream_name start_time end_time
      in case events_loop client 0 params None [] of
           None \<Rightarrow> None
         | Some stream_events \<Rightarrow>
             fetch_streams client log_group_name start_time end_time rest
               (dict_set all_events stream_name stream_events))"

definition get_log_events_by_stream_prefix ::
  "sessions \<Rightarrow> string \<Rightarrow> string \<Rightarrow> string \<Rightarrow> int option \<Rightarrow> int option \<Rightarrow> int \<Rightarrow> string option
    \<Rightarrow> (string \<times> log_event list) list option"
where
  "get_log_events_by_stream_prefix session log_group_name prefix region start_time end_time max_streams profile_name =
     (case find_log_streams_by_prefix session log_group_name prefix region (Some max_streams)
             ''LogStreamName'' True profile_name of
        None \<Rightarrow> None
      | Some streams \<Rightarrow>
          (let logs_client = session (if truthy profile_name then profile_name else None) region
           in fetch_streams (get_log_events logs_client) log_group_name start_time end_time streams []))"

section \<open>Ingestion orchestrator: \<^verbatim>\<open>lambda_handler\<close>\<close>

text \<open>\<^verbatim>\<open>s.split(sep)\<close> for a one-character separator, \<^verbatim>\<open>xs[i]\<close> for \<open>i \<ge> 0\<close>, \<^verbatim>\<open>xs[-1]\<close>.\<close>

fun py_split :: "char \<Rightarrow> string \<Rightarrow> string list" where
  "py_split sep [] = [[]]"
| "py_split sep (c # cs) =
     (if c = sep then [] # py_split sep cs
      else (case py_split sep cs of
              x # xs \<Rightarrow> (c # x) # xs
            | [] \<Rightarrow> [[c]]))"

definition py_index :: "'a list \<Rightarrow> nat \<Rightarrow> exn + 'a" where
  "py_index xs i = (if i < length xs then Inr (xs ! i) else Inl IndexError)"

definition py_last :: "'a list \<Rightarrow> exn + 'a" where
  "py_last xs = (case xs of [] \<Rightarrow> Inl IndexError | _ # _ \<Rightarrow> Inr (last xs))"

text \<open>\<^verbatim>\<open>v[key]\<close> for a string key: a lookup on a dict, \<open>TypeError\<close> on anything else.\<close>

fun subscript :: "json \<Rightarrow> string \<Rightarrow> exn + json" where
  "subscript (JObj kvs) key = (case map_of kvs key of None \<Rightarrow> Inl KeyError | Some v \<Rightarrow> Inr v)"
| "subscript v key = Inl TypeError"

text \<open>\<^verbatim>\<open>event_message['arn'].split('/')[-1]\<close>: only a string has \<^verbatim>\<open>split\<close>.\<close>

fun task_id_of :: "json \<Rightarrow> exn + string" where
  "task_id_of (JStr s) = py_last (py_split CHR ''/'' s)"
| "task_id_of v = Inl AttributeError"

record response =
  statusCode :: int
  body :: string

text \<open>
  The body of the inner \<^verbatim>\<open>for event in stream_events\<close> loop: decode the message, log
  it (the f-string prints it), classify it by its \<^verbatim>\<open>arn\<close>, coerce it with the schema of
  its kind and put it at its key. The last branch logs the \<^verbatim>\<open>arn\<close> and has a bare
  \<^verbatim>\<open>raise\<close>, which outside any handler is a \<open>RuntimeError\<close>. The lines
  \<^verbatim>\<open>convert_data_types\<close> prints go to the standard output and are dropped here.
\<close>

definition store_message :: "string \<Rightarrow> string \<Rightarrow> string \<Rightarrow> log_event \<Rightarrow> s3 \<Rightarrow> (exn + unit) \<times> s3" where
  "store_message DATA_LAKE_BUCKET S3_PREFIX S3_KEY_RUN event store =
     (case message event of
        Inl e \<Rightarrow> (Inl e, store)
      | Inr event_message \<Rightarrow>
     (case py_str event_message of
        Inl e \<Rightarrow> (Inl e, store)
      | Inr logged \<Rightarrow>
          (case subscript event_message ''arn'' of
             Inl e \<Rightarrow> (Inl e, store)
           | Inr arn \<Rightarrow>
               (case classify arn of
                  Inl e \<Rightarrow> (Inl e, store)
                | Inr Run \<Rightarrow>
                    (case convert_data_types event_message RUN_MANIFEST_SCHEMA of
                       Inl e \<Rightarrow> (Inl e, store)
                     | Inr (transformed_event_message, out) \<Rightarrow>
                         write_json_to_s3 DATA_LAKE_BUCKET S3_KEY_RUN transformed_event_message store)
                | Inr Task \<Rightarrow>
                    (case task_id_of arn of
                       Inl e \<Rightarrow> (Inl e, store)
                     | Inr task_id \<Rightarrow>
                         (let S3_KEY_TASK = S3_PREFIX @ ''/tasks/'' @ task_id @ ''.json''
                          in case convert_data_types event_message TASK_MANIFEST_SCHEMA of
                               Inl e \<Rightarrow> (Inl e, store)
                             | Inr (transformed_event_message, out) \<Rightarrow>
                                 write_json_to_s3 DATA_LAKE_BUCKET S3_KEY_TASK transformed_event_message store))
                | Inr Unknown \<Rightarrow>
                    (case py_str arn of
                       Inl e \<Rightarrow> (Inl e, store)
                     | Inr logged_arn \<Rightarrow> (Inl RuntimeError, store))))))"

text \<open>The two nested \<^verbatim>\<open>for\<close> loops over \<^verbatim>\<open>events.items()\<close>; an exception ends them.\<close>

fun store_events :: "string \<Rightarrow> string \<Rightarrow> string \<Rightarrow> log_event list \<Rightarrow> s3 \<Rightarrow> (exn + unit) \<times> s3" where
  "store_events bucket prefix key_run [] store = (Inr (), store)"
| "store_events bucket prefix key_run (event # rest) store =
     (case store_message bucket prefix key_run event store of
        (Inl e, store') \<Rightarrow> (Inl e, store')
      | (Inr u, store') \<Rightarrow> store_events bucket prefix key_run rest store')"

fun store_buckets ::
  "string \<Rightarrow> string \<Rightarrow> string \<Rightarrow> (string \<times> log_event list) list \<Rightarrow> s3 \<Rightarrow> (exn + unit) \<times> s3"
where
  "store_buckets bucket prefix key_run [] store = (Inr (), store)"
| "store_buckets bucket prefix key_run ((stream_name, stream_events) # rest) store =
     (case store_events bucket prefix key_run stream_events store of
        (Inl e, store') \<Rightarrow> (Inl e, store')
      | (Inr u, store') \<Rightarrow> store_buckets bucket prefix key_run rest store')"

text \<open>\<^verbatim>\<open>os.environ.get(key, default)\<close>.\<close>

definition environ_get :: "(string \<times> string) list \<Rightarrow> string \<Rightarrow> string \<Rightarrow> string" where
  "environ_get environ key dflt = (case map_of environ key of None \<Rightarrow> dflt | Some v \<Rightarrow> v)"

text \<open>
  The handler, given the sessions of the log service, the ARN the function was invoked
  under, the environment, the inbound event and the object store. It returns what the
  invocation returns or raises, and the object store after it (puts made before an
  exception stay made); \<open>None\<close> is an invocation whose pagination never ends. The
  inbound event is logged with \<^verbatim>\<open>json.dumps\<close> before it is read. The run identifier is
  printed into the stream prefix and later into \<^verbatim>\<open>S3_KEY_RUN\<close>; the text is the same
  both times and is bound once.
\<close>

definition lambda_handler ::
  "sessions \<Rightarrow> string \<Rightarrow> (string \<times> string) list \<Rightarrow> json \<Rightarrow> s3 \<Rightarrow> ((exn + response) \<times> s3) option"
where
  "lambda_handler session invoked_function_arn environ event store =
     (let arn_elements = py_split CHR '':'' invoked_function_arn in
      case py_index arn_elements 3 of
        Inl e \<Rightarrow> Some (Inl e, store)
      | Inr OMICS_AWS_REGION \<Rightarrow>
     (case map_of environ ''DATA_LAKE_BUCKET'' of
        None \<Rightarrow> Some (Inl ValueError, store)
      | Some DATA_LAKE_BUCKET \<Rightarrow>
     (let S3_PREFIX = environ_get environ ''S3_PREFIX'' [] in
      case json_dumps event of
        Inl e \<Rightarrow> Some (Inl e, store)
      | Inr received \<Rightarrow>
     (case (case subscript event ''detail'' of Inl e \<Rightarrow> Inl e | Inr detail \<Rightarrow> subscript detail ''runId'') of
        Inl KeyError \<Rightarrow>
          Some (Inr \<lparr>statusCode = 400,
                     body = [CHR 0x22] @ ''Missing required event detail'' @ [CHR 0x22]\<rparr>, store)
      | Inl e \<Rightarrow> Some (Inl e, store)
      | Inr run_id \<Rightarrow>
     (case py_str run_id of
        Inl e \<Rightarrow> Some (Inl e, store)
      | Inr run_id_text \<Rightarrow>
     (let manifest_log_stream_prefix = ''manifest/run/'' @ run_id_text in
      case find_log_streams_by_prefix session ''/aws/omics/WorkflowLog'' manifest_log_stream_prefix
             OMICS_AWS_REGION (Some 10) ''LogStreamName'' True None of
        None \<Rightarrow> None
      | Some streams \<Rightarrow>
     (case py_index streams 0 of
        Inl e \<Rightarrow> Some (Inl e, store)
      | Inr stream \<Rightarrow>
     (case get_log_events_by_stream_prefix session ''/aws/omics/WorkflowLog'' (logStreamName stream)
             OMICS_AWS_REGION None None 1 None of
        None \<Rightarrow> None
      | Some all_events \<Rightarrow>
     (let S3_KEY_RUN = S3_PREFIX @ ''/runs/'' @ run_id_text @ ''.json'' in
      case store_buckets DATA_LAKE_BUCKET S3_PREFIX S3_KEY_RUN all_events store of
        (Inl e, store') \<Rightarrow> Some (Inl e, store')
      | (Inr u, store') \<Rightarrow>
          Some (Inr \<lparr>statusCode = 200, body = ''Manifest ETL complete''\<rparr>, store'))))))))))"

section \<open>Notions used to state the properties\<close>

text \<open>
  The shape of a value as far as \<^verbatim>\<open>convert_data_types\<close> walks it with a schema: the keys
  of every mapping, in order, and the length of every sequence; scalars are blanked,
  and so is whatever stands under a key of the schema (the walk replaces it by its
  conversion and does not enter it). With the empty schema nothing is masked, and
  \<open>skeleton []\<close> is the whole shape.
\<close>

fun skeleton :: "schema \<Rightarrow> json \<Rightarrow> json"
  and skeleton_items :: "schema \<Rightarrow> (string \<times> json) list \<Rightarrow> (string \<times> json) list"
  and skeleton_elems :: "schema \<Rightarrow> json list \<Rightarrow> json list"
where
  "skeleton S (JObj kvs) = JObj (skeleton_items S kvs)"
| "skeleton S (JList xs) = JList (skeleton_elems S xs)"
| "skeleton S JNull = JNull"
| "skeleton S (JBool b) = JNull"
| "skeleton S (JInt i) = JNull"
| "skeleton S (JFloat f) = JNull"
| "skeleton S (JStr s) = JNull"
| "skeleton_items S [] = []"
| "skeleton_items S ((k, v) # kvs) =
     (k, case map_of S k of Some t \<Rightarrow> JNull | None \<Rightarrow> skeleton S v) # skeleton_items S kvs"
| "skeleton_elems S [] = []"
| "skeleton_elems S (x # xs) = skeleton S x # skeleton_elems S xs"

text \<open>
  The run of a pagination loop against a client, request by request. \<open>describe_sent\<close>
  is the token the \<open>n\<close>-th request carries (none for the first), \<open>describe_page\<close> the
  page that request gets, \<open>describe_gathered\<close> the streams of the first \<open>n\<close> pages, and
  \<open>describe_stops\<close> says that the loop leaves at the \<open>n\<close>-th page: the page has no
  token, or the limit is reached. The same for the event pagination, which leaves when
  the page has no token or returns the token its request carried.
\<close>

fun describe_sent :: "(nat \<Rightarrow> describe_params \<Rightarrow> describe_response) \<Rightarrow> describe_params \<Rightarrow> nat \<Rightarrow> string option" where
  "describe_sent client p 0 = None"
| "describe_sent client p (Suc n) = nextToken (client n (p\<lparr>dls_nextToken := describe_sent client p n\<rparr>))"

definition describe_page :: "(nat \<Rightarrow> describe_params \<Rightarrow> describe_response) \<Rightarrow> describe_params \<Rightarrow> nat \<Rightarrow> describe_response" where
  "describe_page client p n = client n (p\<lparr>dls_nextToken := describe_sent client p n\<rparr>)"

definition describe_gathered :: "(nat \<Rightarrow> describe_params \<Rightarrow> describe_response) \<Rightarrow> describe_params \<Rightarrow> nat \<Rightarrow> log_stream list" where
  "describe_gathered client p n = concat (map (\<lambda>j. logStreams (describe_page client p j)) [0..<n])"

definition describe_stops :: "(nat \<Rightarrow> describe_params \<Rightarrow> describe_response) \<Rightarrow> describe_params \<Rightarrow> int option \<Rightarrow> nat \<Rightarrow> bool" where
  "describe_stops client p limit n =
     (\<not> truthy (describe_sent client p (Suc n))
      \<or> limit_reached limit (length (describe_gathered client p (Suc n))))"

fun events_sent :: "(nat \<Rightarrow> events_params \<Rightarrow> events_response) \<Rightarrow> events_params \<Rightarrow> nat \<Rightarrow> string option" where
  "events_sent client p 0 = None"
| "events_sent client p (Suc n) = nextForwardToken (client n (p\<lparr>gle_nextToken := events_sent client p n\<rparr>))"

definition events_page :: "(nat \<Rightarrow> events_params \<Rightarrow> events_response) \<Rightarrow> events_params \<Rightarrow> nat \<Rightarrow> events_response" where
  "events_page client p n = client n (p\<lparr>gle_nextToken := events_sent client p n\<rparr>)"

definition events_gathered :: "(nat \<Rightarrow> events_params \<Rightarrow> events_response) \<Rightarrow> events_params \<Rightarrow> nat \<Rightarrow> log_event list" where
  "events_gathered client p n = concat (map (\<lambda>j. events (events_page client p j)) [0..<n])"

definition events_stops :: "(nat \<Rightarrow> events_params \<Rightarrow> events_response) \<Rightarrow> events_params \<Rightarrow> nat \<Rightarrow> bool" where
  "events_stops client p n =
     (\<not> truthy (events_sent client p (Suc n)) \<or> events_sent client p (Suc n) = events_sent client p n)"

text \<open>
  Stub log services, used as concrete inputs. \<open>stable_token_logs\<close> answers every
  request with the same continuation token; \<open>fresh_token_logs\<close> answers the \<open>n\<close>-th
  event request with a token never seen before; \<open>two_page_logs\<close> has four streams on
  two pages.
\<close>

definition stable_token_logs :: sessions where
  "stable_token_logs profile region =
     \<lparr>describe_log_streams = (\<lambda>n q. \<lparr>logStreams = [], nextToken = Some ''t''\<rparr>),
      get_log_events = (\<lambda>n q. \<lparr>events = [\<lparr>timestamp = int n, message = Inl JSONDecodeError\<rparr>],
                                 nextForwardToken = Some ''f/0''\<rparr>)\<rparr>"

definition fresh_token_logs :: sessions where
  "fresh_token_logs profile region =
     \<lparr>describe_log_streams = (\<lambda>n q. \<lparr>logStreams = [], nextToken = None\<rparr>),
      get_log_events = (\<lambda>n q. \<lparr>events = [], nextForwardToken = Some (replicate (Suc n) CHR ''t'')\<rparr>)\<rparr>"

definition two_page_logs :: sessions where
  "two_page_logs profile region =
     \<lparr>describe_log_streams = (\<lambda>n q.
        if n = 0 then \<lparr>logStreams = [\<lparr>logStreamName = ''s1'', lastEventTimestamp = 1\<rparr>,
                                     \<lparr>logStreamName = ''s2'', lastEventTimestamp = 2\<rparr>],
                       nextToken = Some ''page2''\<rparr>
        else \<lparr>logStreams = [\<lparr>logStreamName = ''s3'', lastEventTimestamp = 3\<rparr>,
                            \<lparr>logStreamName = ''s4'', lastEventTimestamp = 4\<rparr>],
              nextToken = None\<rparr>),
      get_log_events = (\<lambda>n q. \<lparr>events = [], nextForwardToken = None\<rparr>)\<rparr>"

text \<open>
  A log event is run-level when its message decodes to a record whose \<^verbatim>\<open>arn\<close> is
  classified Run, task-level when it is classified Task; \<open>task_identifier\<close> is then the
  text after the last \<^verbatim>\<open>/\<close> of that \<^verbatim>\<open>arn\<close>. \<open>destination_key\<close> is the key layout of the
  object store, \<^verbatim>\<open><prefix>/<namespace>/<identifier>.json\<close>.
\<close>

definition run_level :: "log_event \<Rightarrow> bool" where
  "run_level ev =
     (case message ev of
        Inl e \<Rightarrow> False
      | Inr m \<Rightarrow> (case subscript m ''arn'' of Inl e \<Rightarrow> False | Inr arn \<Rightarrow> classify arn = Inr Run))"

definition task_level :: "log_event \<Rightarrow> bool" where
  "task_level ev =
     (case message ev of
        Inl e \<Rightarrow> False
      | Inr m \<Rightarrow> (case subscript m ''arn'' of Inl e \<Rightarrow> False | Inr arn \<Rightarrow> classify arn = Inr Task))"

definition task_identifier :: "log_event \<Rightarrow> exn + string" where
  "task_identifier ev =
     (case message ev of
        Inl e \<Rightarrow> Inl e
      | Inr m \<Rightarrow> (case subscript m ''arn'' of Inl e \<Rightarrow> Inl e | Inr arn \<Rightarrow> task_id_of arn))"

definition destination_key :: "string \<Rightarrow> string \<Rightarrow> string \<Rightarrow> string" where
  "destination_key prefix namespace identifier = prefix @ ''/'' @ namespace @ ''/'' @ identifier @ ''.json''"

text \<open>
  The content stored for a record: its coercion with a schema, if it can be serialised.
  \<open>expected_put\<close> is the put request one log event calls for, given the bucket, the
  prefix and the text of the run identifier of the inbound event, or the exception the
  event ends the invocation with.
\<close>

definition stored_content :: "json \<Rightarrow> schema \<Rightarrow> exn + json" where
  "stored_content m S =
     (case convert_data_types m S of
        Inl e \<Rightarrow> Inl e
      | Inr (transformed, out) \<Rightarrow> json_dumps transformed)"

definition expected_put :: "string \<Rightarrow> string \<Rightarrow> string \<Rightarrow> log_event \<Rightarrow> exn + (string \<times> string \<times> json)" where
  "expected_put bucket prefix run_id_text ev =
     (case message ev of
        Inl e \<Rightarrow> Inl e
      | Inr m \<Rightarrow>
     (case py_str m of
        Inl e \<Rightarrow> Inl e
      | Inr logged \<Rightarrow>
     (case subscript m ''arn'' of
        Inl e \<Rightarrow> Inl e
      | Inr arn \<Rightarrow>
     (case classify arn of
        Inl e \<Rightarrow> Inl e
      | Inr Run \<Rightarrow>
          (case stored_content m RUN_MANIFEST_SCHEMA of
             Inl e \<Rightarrow> Inl e
           | Inr content \<Rightarrow> Inr (bucket, destination_key prefix ''runs'' run_id_text, content))
      | Inr Task \<Rightarrow>
          (case task_id_of arn of
             Inl e \<Rightarrow> Inl e
           | Inr task_id \<Rightarrow>
               (case stored_content m TASK_MANIFEST_SCHEMA of
                  Inl e \<Rightarrow> Inl e
                | Inr content \<Rightarrow> Inr (bucket, destination_key prefix ''tasks'' task_id, content)))
      | Inr Unknown \<Rightarrow> Inl RuntimeError))))"

text \<open>
  The course of the loop over the log events, given what each event calls for: the puts
  made are those of the events before the first that raises, and the loop ends with
  that exception, or normally when no event raises.
\<close>

fun puts_made :: "(exn + 'a) list \<Rightarrow> 'a list" where
  "puts_made [] = []"
| "puts_made (Inl e # rs) = []"
| "puts_made (Inr put # rs) = put # puts_made rs"

fun first_raised :: "(exn + 'a) list \<Rightarrow> exn option" where
  "first_raised [] = None"
| "first_raised (Inl e # rs) = Some e"
| "first_raised (Inr put # rs) = first_raised rs"

definition invocation_result :: "exn option \<Rightarrow> exn + response" where
  "invocation_result raised =
     (case raised of
        Some e \<Rightarrow> Inl e
      | None \<Rightarrow> Inr \<lparr>statusCode = 200, body = ''Manifest ETL complete''\<rparr>)"

text \<open>
  More stub log services. \<open>no_stream_logs\<close> finds no stream. \<open>manifest_logs\<close> finds
  one stream holding a run manifest whose \<^verbatim>\<open>arn\<close> names run 1111111, a task manifest
  and a run manifest whose \<^verbatim>\<open>arn\<close> names run 4408708; like the real service it ends the
  stream by returning the token it was sent. \<open>run_record_logs\<close> answers every lookup
  with one stream holding the manifest of run 1111111. \<open>partial_logs\<close> finds one stream
  holding two run manifests, a record whose \<^verbatim>\<open>arn\<close> names neither a run nor a task, and
  one more run manifest.
\<close>

definition no_stream_logs :: sessions where
  "no_stream_logs profile region =
     \<lparr>describe_log_streams = (\<lambda>n q. \<lparr>logStreams = [], nextToken = None\<rparr>),
      get_log_events = (\<lambda>n q. \<lparr>events = [], nextForwardToken = None\<rparr>)\<rparr>"

definition manifest_logs :: sessions where
  "manifest_logs profile region =
     \<lparr>describe_log_streams = (\<lambda>n q.
        \<lparr>logStreams = [\<lparr>logStreamName = ''manifest/run/4408708/11aa'', lastEventTimestamp = 30\<rparr>],
         nextToken = None\<rparr>),
      get_log_events = (\<lambda>n q.
        \<lparr>events = (if n = 0 then
            [\<lparr>timestamp = 10, message = Inr (JObj
                [(''arn'', JStr ''arn:aws:omics:us-east-1:123456789012:run/1111111''),
                 (''status'', JStr ''RUNNING'')])\<rparr>,
             \<lparr>timestamp = 20, message = Inr (JObj
                [(''arn'', JStr ''arn:aws:omics:us-east-1:123456789012:task/7654321''),
                 (''cpus'', JStr ''4''), (''run'', JInt 4408708)])\<rparr>,
             \<lparr>timestamp = 30, message = Inr (JObj
                [(''arn'', JStr ''arn:aws:omics:us-east-1:123456789012:run/4408708''),
                 (''status'', JStr ''COMPLETED'')])\<rparr>]
          else []),
         nextForwardToken = Some ''f/3''\<rparr>)\<rparr>"

definition run_record_logs :: sessions where
  "run_record_logs profile region =
     \<lparr>describe_log_streams = (\<lambda>n q.
        \<lparr>logStreams = [\<lparr>logStreamName = ''manifest/run/1111111/22bb'', lastEventTimestamp = 10\<rparr>],
         nextToken = None\<rparr>),
      get_log_events = (\<lambda>n q.
        \<lparr>events = (if n = 0 then
            [\<lparr>timestamp = 10, message = Inr (JObj
                [(''arn'', JStr ''arn:aws:omics:us-east-1:123456789012:run/1111111''),
                 (''status'', JStr ''COMPLETED'')])\<rparr>]
          else []),
         nextForwardToken = Some ''f/1''\<rparr>)\<rparr>"

definition partial_logs :: sessions where
  "partial_logs profile region =
     \<lparr>describe_log_streams = (\<lambda>n q.
        \<lparr>logStreams = [\<lparr>logStreamName = ''manifest/run/4408708/33cc'', lastEventTimestamp = 40\<rparr>],
         nextToken = None\<rparr>),
      get_log_events = (\<lambda>n q.
        \<lparr>events = (if n = 0 then
            [\<lparr>timestamp = 10, message = Inr (JObj
                [(''arn'', JStr ''arn:aws:omics:us-east-1:123456789012:run/1111111''),
                 (''status'', JStr ''RUNNING'')])\<rparr>,
             \<lparr>timestamp = 20, message = Inr (JObj
                [(''arn'', JStr ''arn:aws:omics:us-east-1:123456789012:run/4408708''),
                 (''status'', JStr ''COMPLETED'')])\<rparr>,
             \<lparr>timestamp = 30, message = Inr (JObj
                [(''arn'', JStr ''arn:aws:omics:us-east-1:123456789012:workflow/55''),
                 (''status'', JStr ''ACTIVE'')])\<rparr>,
             \<lparr>timestamp = 40, message = Inr (JObj
                [(''arn'', JStr ''arn:aws:omics:us-east-1:123456789012:run/4408708''),
                 (''status'', JStr ''DELETED'')])\<rparr>]
          else []),
         nextForwardToken = Some ''f/4''\<rparr>)\<rparr>"

section \<open>Properties of the coercion\<close>

lemma skeleton_scalar: "\<not> is_container v \<Longrightarrow> skeleton S v = JNull"
  by (cases v) simp_all

lemma convert_items_Cons:
  "convert_items ((k, v) # rest) S =
     (case convert_field k v S of
        Inl e \<Rightarrow> Inl e
      | Inr (v', out) \<Rightarrow>
          (case convert_items rest S of
             Inl e \<Rightarrow> Inl e
           | Inr (rest', out') \<Rightarrow> Inr ((k, v') # rest', out @ out')))"
  unfolding convert_field_def by (rule convert_items.simps(2))

declare convert_items.simps(2) [simp del]

lemma convert_items_Cons_Inr:
  assumes "convert_items ((k, v) # rest) S = Inr (kvs', out)"
  obtains v' o1 rest' o2 where "convert_field k v S = Inr (v', o1)"
    and "convert_items rest S = Inr (rest', o2)" and "kvs' = (k, v') # rest'" and "out = o1 @ o2"
  using assms by (simp add: convert_items_Cons split: sum.splits prod.splits)

lemma convert_elems_Cons_Inr:
  assumes "convert_elems (x # rest) S = Inr (xs', out)"
  obtains x' o1 rest' o2
  where "(if is_container x then convert_data_types x S else Inr (x, [])) = Inr (x', o1)"
    and "convert_elems rest S = Inr (rest', o2)" and "xs' = x' # rest'" and "out = o1 @ o2"
  using assms by (simp split: sum.splits prod.splits)

lemma convert_field_unknown:
  "map_of S k = None \<Longrightarrow>
   convert_field k v S = (if is_container v then convert_data_types v S else Inr (v, []))"
  by (simp add: convert_field_def)

lemma convert_skeleton_all:
  "(\<forall>v' out. convert_data_types v S = Inr (v', out) \<longrightarrow> skeleton S v' = skeleton S v)"
  "(\<forall>kvs' out. convert_items kvs S = Inr (kvs', out) \<longrightarrow> skeleton_items S kvs' = skeleton_items S kvs)"
  "(\<forall>xs' out. convert_elems xs S = Inr (xs', out) \<longrightarrow> skeleton_elems S xs' = skeleton_elems S xs)"
proof (induction v S and kvs S and xs S
       rule: convert_data_types_convert_items_convert_elems.induct)
  case (1 kvs type_mapping)
  show ?case
  proof (intro allI impI)
    fix v' out
    assume "convert_data_types (JObj kvs) type_mapping = Inr (v', out)"
    then obtain kvs' where "convert_items kvs type_mapping = Inr (kvs', out)" and v': "v' = JObj kvs'"
      by (simp split: sum.splits prod.splits)
    with 1 have "skeleton_items type_mapping kvs' = skeleton_items type_mapping kvs"
      by blast
    with v' show "skeleton type_mapping v' = skeleton type_mapping (JObj kvs)"
      by simp
  qed
next
  case (2 xs type_mapping)
  show ?case
  proof (intro allI impI)
    fix v' out
    assume "convert_data_types (JList xs) type_mapping = Inr (v', out)"
    then obtain xs' where "convert_elems xs type_mapping = Inr (xs', out)" and v': "v' = JList xs'"
      by (simp split: sum.splits prod.splits)
    with 2 have "skeleton_elems type_mapping xs' = skeleton_elems type_mapping xs"
      by blast
    with v' show "skeleton type_mapping v' = skeleton type_mapping (JList xs)"
      by simp
  qed
next
  case (9 key "value" rest type_mapping)
  show ?case
  proof (intro allI impI)
    fix kvs' out
    assume h: "convert_items ((key, value) # rest) type_mapping = Inr (kvs', out)"
    then obtain v' o1 rest' o2 where f: "convert_field key value type_mapping = Inr (v', o1)"
      and r: "convert_items rest type_mapping = Inr (rest', o2)" and k: "kvs' = (key, v') # rest'"
      by (rule convert_items_Cons_Inr)
    from 9(2)[OF f[unfolded convert_field_def] refl] r
    have tl: "skeleton_items type_mapping rest' = skeleton_items type_mapping rest"
      by blast
    have hd: "skeleton type_mapping v' = skeleton type_mapping value"
      if n: "map_of type_mapping key = None"
    proof (cases "is_container value")
      case True
      from f n True have "convert_data_types value type_mapping = Inr (v', o1)"
        by (simp add: convert_field_unknown)
      with 9(1)[OF n True] show ?thesis by blast
    next
      case False
      with f n have "v' = value" by (simp add: convert_field_unknown)
      then show ?thesis by simp
    qed
    show "skeleton_items type_mapping kvs' = skeleton_items type_mapping ((key, value) # rest)"
    proof (cases "map_of type_mapping key")
      case None
      with hd tl k show ?thesis by simp
    next
      case (Some t)
      with tl k show ?thesis by simp
    qed
  qed
next
  case (11 item rest type_mapping)
  show ?case
  proof (intro allI impI)
    fix xs' out
    assume h: "convert_elems (item # rest) type_mapping = Inr (xs', out)"
    then obtain x' o1 rest' o2
      where f: "(if is_container item then convert_data_types item type_mapping else Inr (item, [])) = Inr (x', o1)"
      and r: "convert_elems rest type_mapping = Inr (rest', o2)" and k: "xs' = x' # rest'"
      by (rule convert_elems_Cons_Inr)
    from 11(2)[OF f refl] r
    have tl: "skeleton_elems type_mapping rest' = skeleton_elems type_mapping rest"
      by blast
    have hd: "skeleton type_mapping x' = skeleton type_mapping item"
    proof (cases "is_container item")
      case True
      with f have "convert_data_types item type_mapping = Inr (x', o1)" by simp
      with 11(1)[OF True] show ?thesis by blast
    next
      case False
      with f have "x' = item" by simp
      then show ?thesis by simp
    qed
    from hd tl k show "skeleton_elems type_mapping xs' = skeleton_elems type_mapping (item # rest)"
      by simp
  qed
qed simp_all

lemma convert_items_frame:
  "convert_items kvs S = Inr (kvs', out) \<Longrightarrow>
   list_all2 (\<lambda>(k, v) (k', v'). k' = k \<and>
       (map_of S k = None \<longrightarrow>
          (if is_container v then (\<exists>out'. convert_data_types v S = Inr (v', out')) else v' = v)))
     kvs kvs'"
proof (induction kvs arbitrary: kvs' out)
  case Nil
  then show ?case by simp
next
  case (Cons kv rest)
  obtain k v where kv: "kv = (k, v)" by (cases kv)
  from Cons.prems kv obtain v' o1 rest' o2 where f: "convert_field k v S = Inr (v', o1)"
    and r: "convert_items rest S = Inr (rest', o2)" and k: "kvs' = (k, v') # rest'"
    by (auto elim: convert_items_Cons_Inr)
  from Cons.IH[OF r] f kv k show ?case
    by (auto simp: convert_field_unknown split: if_splits)
qed

lemma convert_field_value_error:
  assumes "map_of S k = Some t" and "v \<noteq> JNull" and "apply_type t v = Inl ValueError"
    and "could_not_convert v k t = Inr line"
  shows "convert_field k v S = Inr (v, [line])"
  using assms by (simp add: convert_field_def)

text \<open>
  Claim C1, as amended. When \<^verbatim>\<open>convert_data_types\<close> returns for a mapping and a schema,
  the result has the same keys in the same order, and a field whose key is not in the
  schema keeps its value if that value is a scalar; if the value is a nested mapping or
  sequence, the field holds the result of \<^verbatim>\<open>convert_data_types\<close> on it with the same
  schema (so keys of the schema are coerced inside it as well).
\<close>

theorem convert_unknown_fields:
  assumes "convert_data_types (JObj kvs) S = Inr (JObj kvs', out)"
  shows "list_all2 (\<lambda>(k, v) (k', v'). k' = k \<and>
       (map_of S k = None \<longrightarrow>
          (if is_container v then (\<exists>out'. convert_data_types v S = Inr (v', out')) else v' = v)))
     kvs kvs'"
proof -
  from assms have "convert_items kvs S = Inr (kvs', out)"
    by (simp split: sum.splits prod.splits)
  then show ?thesis by (rule convert_items_frame)
qed

theorem convert_unknown_fields_witness:
  "convert_data_types
     (JObj [(''note'', JInt 7), (''cpus'', JStr ''2''), (''extra'', JObj [(''cpus'', JStr ''4'')])])
     TASK_MANIFEST_SCHEMA
   = Inr (JObj [(''note'', JInt 7), (''cpus'', JInt 2), (''extra'', JObj [(''cpus'', JInt 4)])], [])
   \<and> list_all2 (\<lambda>(k, v) (k', v'). k' = k \<and>
       (map_of TASK_MANIFEST_SCHEMA k = None \<longrightarrow>
          (if is_container v then (\<exists>out'. convert_data_types v TASK_MANIFEST_SCHEMA = Inr (v', out')) else v' = v)))
     [(''note'', JInt 7), (''cpus'', JStr ''2''), (''extra'', JObj [(''cpus'', JStr ''4'')])]
     [(''note'', JInt 7), (''cpus'', JInt 2), (''extra'', JObj [(''cpus'', JInt 4)])]"
proof -
  have h: "convert_data_types
     (JObj [(''note'', JInt 7), (''cpus'', JStr ''2''), (''extra'', JObj [(''cpus'', JStr ''4'')])])
     TASK_MANIFEST_SCHEMA
   = Inr (JObj [(''note'', JInt 7), (''cpus'', JInt 2), (''extra'', JObj [(''cpus'', JInt 4)])], [])"
    by code_simp
  from h convert_unknown_fields[OF h] show ?thesis by (rule conjI)
qed

text \<open>
  Claim C1 as stated fails for a field whose value is a nested mapping: \<^verbatim>\<open>extra\<close> is not
  a key of the task schema, and its value is changed all the same.
\<close>

theorem convert_rewrites_nested_unknown_field:
  "map_of TASK_MANIFEST_SCHEMA ''extra'' = None \<and>
   convert_data_types (JObj [(''extra'', JObj [(''cpus'', JStr ''4'')])]) TASK_MANIFEST_SCHEMA
     = Inr (JObj [(''extra'', JObj [(''cpus'', JInt 4)])], [])"
  by code_simp

text \<open>
  Claim C3: a value that cannot be converted is left as it is, and the coercion never
  raises. The code catches \<open>ValueError\<close> only (lemma \<open>convert_field_value_error\<close>
  is the recovery it does make); a list under an integer-typed key makes \<^verbatim>\<open>int\<close> raise
  \<open>TypeError\<close>, which leaves \<^verbatim>\<open>convert_data_types\<close>.
\<close>

theorem convert_type_error_escapes:
  "convert_data_types
     (JObj [(''arn'', JStr ''arn:aws:omics:us-east-1:123456789012:task/7''), (''cpus'', JList [JInt 4])])
     TASK_MANIFEST_SCHEMA
   = Inl TypeError"
  by code_simp

text \<open>
  Claim C9, as amended. When \<^verbatim>\<open>convert_data_types\<close> returns, the shape it has walked is
  unchanged: the top-level mapping and every mapping reached through keys that are not
  in the schema keep their keys, in order, and every sequence so reached keeps its
  length. What stands under a key of the schema is replaced by its conversion.
\<close>

theorem convert_preserves_walked_shape:
  "convert_data_types R S = Inr (R', out) \<Longrightarrow> skeleton S R' = skeleton S R"
  using convert_skeleton_all(1) by blast

theorem convert_preserves_walked_shape_witness:
  "convert_data_types
     (JObj [(''metrics'', JObj [(''a'', JInt 1)]), (''tags'', JList [JObj [(''cpus'', JStr ''8'')], JInt 3])])
     TASK_MANIFEST_SCHEMA
   = Inr (JObj [(''metrics'', JStr (''{'' @ [CHR 0x27] @ ''a'' @ [CHR 0x27] @ '': 1}'')),
                (''tags'', JList [JObj [(''cpus'', JInt 8)], JInt 3])], [])
   \<and> skeleton TASK_MANIFEST_SCHEMA
        (JObj [(''metrics'', JStr (''{'' @ [CHR 0x27] @ ''a'' @ [CHR 0x27] @ '': 1}'')),
                (''tags'', JList [JObj [(''cpus'', JInt 8)], JInt 3])])
     = skeleton TASK_MANIFEST_SCHEMA
        (JObj [(''metrics'', JObj [(''a'', JInt 1)]), (''tags'', JList [JObj [(''cpus'', JStr ''8'')], JInt 3])])"
proof -
  have h: "convert_data_types
     (JObj [(''metrics'', JObj [(''a'', JInt 1)]), (''tags'', JList [JObj [(''cpus'', JStr ''8'')], JInt 3])])
     TASK_MANIFEST_SCHEMA
   = Inr (JObj [(''metrics'', JStr (''{'' @ [CHR 0x27] @ ''a'' @ [CHR 0x27] @ '': 1}'')),
                (''tags'', JList [JObj [(''cpus'', JInt 8)], JInt 3])], [])"
    by code_simp
  from h convert_preserves_walked_shape[OF h] show ?thesis by (rule conjI)
qed

text \<open>
  Claim C9 as stated fails for a mapping stored under a key of the schema: the run
  schema turns the mapping under \<^verbatim>\<open>metrics\<close> into the string \<^verbatim>\<open>str\<close> prints for it, and
  its key \<^verbatim>\<open>a\<close> is gone from the shape.
\<close>

theorem convert_replaces_mapping_under_schema_key:
  "convert_data_types (JObj [(''metrics'', JObj [(''a'', JInt 1)])]) RUN_MANIFEST_SCHEMA
     = Inr (JObj [(''metrics'', JStr (''{'' @ [CHR 0x27] @ ''a'' @ [CHR 0x27] @ '': 1}''))], [])
   \<and> skeleton [] (JObj [(''metrics'', JStr (''{'' @ [CHR 0x27] @ ''a'' @ [CHR 0x27] @ '': 1}''))])
     \<noteq> skeleton [] (JObj [(''metrics'', JObj [(''a'', JInt 1)])])"
  by code_simp

section \<open>Properties of the stream pagination\<close>

lemma describe_loop_step:
  assumes "(if truthy (describe_sent c p n) then params\<lparr>dls_nextToken := describe_sent c p n\<rparr> else params)
           = p\<lparr>dls_nextToken := describe_sent c p n\<rparr>"
  shows "describe_loop c limit n params (describe_sent c p n) (describe_gathered c p n) =
     (if describe_stops c p limit n then Some (describe_gathered c p (Suc n))
      else describe_loop c limit (Suc n) (p\<lparr>dls_nextToken := describe_sent c p n\<rparr>)
             (describe_sent c p (Suc n)) (describe_gathered c p (Suc n)))"
proof -
  have "describe_loop c limit n params (describe_sent c p n) (describe_gathered c p n) =
     (let params' = p\<lparr>dls_nextToken := describe_sent c p n\<rparr>;
          response = c n params';
          all_streams' = describe_gathered c p n @ logStreams response;
          next_token' = nextToken response
      in if \<not> truthy next_token' \<or> limit_reached limit (length all_streams') then Some all_streams'
         else describe_loop c limit (Suc n) params' next_token' all_streams')"
    by (subst describe_loop.simps) (simp only: assms)
  also have "\<dots> = (if describe_stops c p limit n then Some (describe_gathered c p (Suc n))
      else describe_loop c limit (Suc n) (p\<lparr>dls_nextToken := describe_sent c p n\<rparr>)
             (describe_sent c p (Suc n)) (describe_gathered c p (Suc n)))"
    by (simp add: Let_def describe_stops_def describe_gathered_def describe_page_def)
  finally show ?thesis .
qed

lemma describe_inv_Suc:
  assumes "\<not> describe_stops c p limit n"
  shows "(if truthy (describe_sent c p (Suc n))
          then (p\<lparr>dls_nextToken := describe_sent c p n\<rparr>)\<lparr>dls_nextToken := describe_sent c p (Suc n)\<rparr>
          else p\<lparr>dls_nextToken := describe_sent c p n\<rparr>)
         = p\<lparr>dls_nextToken := describe_sent c p (Suc n)\<rparr>"
proof -
  from assms have "truthy (describe_sent c p (Suc n))" by (simp add: describe_stops_def)
  then show ?thesis by simp
qed

lemma describe_loop_from:
  assumes "describe_stops c p limit k" and "\<forall>j<k. \<not> describe_stops c p limit j" and "n \<le> k"
    and "(if truthy (describe_sent c p n) then params\<lparr>dls_nextToken := describe_sent c p n\<rparr> else params)
           = p\<lparr>dls_nextToken := describe_sent c p n\<rparr>"
  shows "describe_loop c limit n params (describe_sent c p n) (describe_gathered c p n)
         = Some (describe_gathered c p (Suc k))"
  using assms(3,4)
proof (induction "k - n" arbitrary: n params)
  case 0
  then have "n = k" by simp
  with describe_loop_step[OF "0.prems"(2), of limit] assms(1) show ?case by simp
next
  case (Suc d)
  then have lt: "n < k" by simp
  with assms(2) have ns: "\<not> describe_stops c p limit n" by blast
  have "describe_loop c limit (Suc n) (p\<lparr>dls_nextToken := describe_sent c p n\<rparr>)
          (describe_sent c p (Suc n)) (describe_gathered c p (Suc n))
        = Some (describe_gathered c p (Suc k))"
  proof (rule Suc.hyps(1))
    show "d = k - Suc n" using Suc.hyps(2) by simp
    show "Suc n \<le> k" using lt by simp
    show "(if truthy (describe_sent c p (Suc n))
          then (p\<lparr>dls_nextToken := describe_sent c p n\<rparr>)\<lparr>dls_nextToken := describe_sent c p (Suc n)\<rparr>
          else p\<lparr>dls_nextToken := describe_sent c p n\<rparr>)
         = p\<lparr>dls_nextToken := describe_sent c p (Suc n)\<rparr>"
      using ns by (rule describe_inv_Suc)
  qed
  with describe_loop_step[OF Suc.prems(2), of limit] ns show ?case by simp
qed

lemma describe_loop_Some_stops:
  assumes "describe_loop c limit n params tok acc = Some y"
  shows "\<forall>p. tok = describe_sent c p n \<and> acc = describe_gathered c p n
            \<and> (if truthy tok then params\<lparr>dls_nextToken := tok\<rparr> else params) = p\<lparr>dls_nextToken := tok\<rparr>
          \<longrightarrow> (\<exists>k. describe_stops c p limit k)"
proof (rule describe_loop.raw_induct[where P = "\<lambda>c limit n params tok acc y.
          \<forall>p. tok = describe_sent c p n \<and> acc = describe_gathered c p n
            \<and> (if truthy tok then params\<lparr>dls_nextToken := tok\<rparr> else params) = p\<lparr>dls_nextToken := tok\<rparr>
          \<longrightarrow> (\<exists>k. describe_stops c p limit k)", OF _ assms])
  fix f :: "(nat \<Rightarrow> describe_params \<Rightarrow> describe_response) \<Rightarrow> int option \<Rightarrow> nat \<Rightarrow> describe_params
    \<Rightarrow> string option \<Rightarrow> log_stream list \<Rightarrow> log_stream list option"
  fix c limit n params tok acc y
  assume IH: "\<And>c limit n params tok acc y. f c limit n params tok acc = Some y \<Longrightarrow>
          \<forall>p. tok = describe_sent c p n \<and> acc = describe_gathered c p n
            \<and> (if truthy tok then params\<lparr>dls_nextToken := tok\<rparr> else params) = p\<lparr>dls_nextToken := tok\<rparr>
          \<longrightarrow> (\<exists>k. describe_stops c p limit k)"
  assume body: "(let params' = if truthy tok then params\<lparr>dls_nextToken := tok\<rparr> else params;
          response = c n params';
          all_streams' = acc @ logStreams response;
          next_token' = nextToken response
      in if \<not> truthy next_token' \<or> limit_reached limit (length all_streams')
         then Some all_streams'
         else f c limit (Suc n) params' next_token' all_streams') = Some y"
  show "\<forall>p. tok = describe_sent c p n \<and> acc = describe_gathered c p n
            \<and> (if truthy tok then params\<lparr>dls_nextToken := tok\<rparr> else params) = p\<lparr>dls_nextToken := tok\<rparr>
          \<longrightarrow> (\<exists>k. describe_stops c p limit k)"
  proof (intro allI impI, elim conjE)
    fix p
    assume t: "tok = describe_sent c p n" and a: "acc = describe_gathered c p n"
      and q: "(if truthy tok then params\<lparr>dls_nextToken := tok\<rparr> else params) = p\<lparr>dls_nextToken := tok\<rparr>"
    show "\<exists>k. describe_stops c p limit k"
    proof (cases "describe_stops c p limit n")
      case True
      then show ?thesis by blast
    next
      case False
      from q have q': "(if truthy (describe_sent c p n) then params\<lparr>dls_nextToken := describe_sent c p n\<rparr> else params)
           = p\<lparr>dls_nextToken := describe_sent c p n\<rparr>"
        unfolding t .
      from body have "(let params' = p\<lparr>dls_nextToken := describe_sent c p n\<rparr>;
          response = c n params';
          all_streams' = describe_gathered c p n @ logStreams response;
          next_token' = nextToken response
      in if \<not> truthy next_token' \<or> limit_reached limit (length all_streams')
         then Some all_streams'
         else f c limit (Suc n) params' next_token' all_streams') = Some y"
        unfolding t a q' .
      with False have "f c limit (Suc n) (p\<lparr>dls_nextToken := describe_sent c p n\<rparr>)
             (describe_sent c p (Suc n)) (describe_gathered c p (Suc n)) = Some y"
        by (simp add: Let_def describe_stops_def describe_gathered_def describe_page_def)
      from IH[OF this] describe_inv_Suc[OF False] show ?thesis by blast
    qed
  qed
qed

lemma describe_update_same_token: "dls_nextToken p = None \<Longrightarrow> p\<lparr>dls_nextToken := None\<rparr> = p"
  by (cases p) simp

lemma describe_loop_returns_iff:
  assumes "dls_nextToken p = None"
  shows "(\<exists>y. describe_loop c limit 0 p None [] = Some y) \<longleftrightarrow> (\<exists>k. describe_stops c p limit k)"
proof
  assume "\<exists>y. describe_loop c limit 0 p None [] = Some y"
  then obtain y where y: "describe_loop c limit 0 p None [] = Some y" by blast
  from describe_loop_Some_stops[OF y] assms show "\<exists>k. describe_stops c p limit k"
    by (simp add: describe_gathered_def describe_update_same_token)
next
  assume "\<exists>k. describe_stops c p limit k"
  then obtain k where k: "describe_stops c p limit k" and least: "\<forall>j<k. \<not> describe_stops c p limit j"
    using exists_least_iff[of "describe_stops c p limit"] by blast
  from describe_loop_from[OF k least, of 0 p] assms
  show "\<exists>y. describe_loop c limit 0 p None [] = Some y"
    by (simp add: describe_gathered_def describe_update_same_token)
qed

section \<open>Properties of the event pagination\<close>

lemma events_loop_step:
  assumes "(if truthy (events_sent c p n) then params\<lparr>gle_nextToken := events_sent c p n\<rparr> else params)
           = p\<lparr>gle_nextToken := events_sent c p n\<rparr>"
  shows "events_loop c n params (events_sent c p n) (events_gathered c p n) =
     (if events_stops c p n then Some (events_gathered c p (Suc n))
      else events_loop c (Suc n) (p\<lparr>gle_nextToken := events_sent c p n\<rparr>)
             (events_sent c p (Suc n)) (events_gathered c p (Suc n)))"
proof -
  have "events_loop c n params (events_sent c p n) (events_gathered c p n) =
     (let params' = p\<lparr>gle_nextToken := events_sent c p n\<rparr>;
          response = c n params';
          stream_events' = events_gathered c p n @ events response;
          next_token' = nextForwardToken response
      in if \<not> truthy next_token' \<or> next_token' = gle_nextToken params' then Some stream_events'
         else events_loop c (Suc n) params' next_token' stream_events')"
    by (subst events_loop.simps) (simp only: assms)
  also have "\<dots> = (if events_stops c p n then Some (events_gathered c p (Suc n))
      else events_loop c (Suc n) (p\<lparr>gle_nextToken := events_sent c p n\<rparr>)
             (events_sent c p (Suc n)) (events_gathered c p (Suc n)))"
    by (simp add: Let_def events_stops_def events_gathered_def events_page_def)
  finally show ?thesis .
qed

lemma events_inv_Suc:
  assumes "\<not> events_stops c p n"
  shows "(if truthy (events_sent c p (Suc n))
          then (p\<lparr>gle_nextToken := events_sent c p n\<rparr>)\<lparr>gle_nextToken := events_sent c p (Suc n)\<rparr>
          else p\<lparr>gle_nextToken := events_sent c p n\<rparr>)
         = p\<lparr>gle_nextToken := events_sent c p (Suc n)\<rparr>"
proof -
  from assms have "truthy (events_sent c p (Suc n))" by (simp add: events_stops_def)
  then show ?thesis by simp
qed

lemma events_loop_from:
  assumes "events_stops c p k" and "\<forall>j<k. \<not> events_stops c p j" and "n \<le> k"
    and "(if truthy (events_sent c p n) then params\<lparr>gle_nextToken := events_sent c p n\<rparr> else params)
           = p\<lparr>gle_nextToken := events_sent c p n\<rparr>"
  shows "events_loop c n params (events_sent c p n) (events_gathered c p n)
         = Some (events_gathered c p (Suc k))"
  using assms(3,4)
proof (induction "k - n" arbitrary: n params)
  case 0
  then have "n = k" by simp
  with events_loop_step[OF "0.prems"(2)] assms(1) show ?case by simp
next
  case (Suc d)
  then have lt: "n < k" by simp
  with assms(2) have ns: "\<not> events_stops c p n" by blast
  have "events_loop c (Suc n) (p\<lparr>gle_nextToken := events_sent c p n\<rparr>)
          (events_sent c p (Suc n)) (events_gathered c p (Suc n))
        = Some (events_gathered c p (Suc k))"
  proof (rule Suc.hyps(1))
    show "d = k - Suc n" using Suc.hyps(2) by simp
    show "Suc n \<le> k" using lt by simp
    show "(if truthy (events_sent c p (Suc n))
          then (p\<lparr>gle_nextToken := events_sent c p n\<rparr>)\<lparr>gle_nextToken := events_sent c p (Suc n)\<rparr>
          else p\<lparr>gle_nextToken := events_sent c p n\<rparr>)
         = p\<lparr>gle_nextToken := events_sent c p (Suc n)\<rparr>"
      using ns by (rule events_inv_Suc)
  qed
  with events_loop_step[OF Suc.prems(2)] ns show ?case by simp
qed

lemma events_loop_Some_stops:
  assumes "events_loop c n params tok acc = Some y"
  shows "\<forall>p. tok = events_sent c p n \<and> acc = events_gathered c p n
            \<and> (if truthy tok then params\<lparr>gle_nextToken := tok\<rparr> else params) = p\<lparr>gle_nextToken := tok\<rparr>
          \<longrightarrow> (\<exists>k. events_stops c p k)"
proof (rule events_loop.raw_induct[where P = "\<lambda>c n params tok acc y.
          \<forall>p. tok = events_sent c p n \<and> acc = events_gathered c p n
            \<and> (if truthy tok then params\<lparr>gle_nextToken := tok\<rparr> else params) = p\<lparr>gle_nextToken := tok\<rparr>
          \<longrightarrow> (\<exists>k. events_stops c p k)", OF _ assms])
  fix f :: "(nat \<Rightarrow> events_params \<Rightarrow> events_response) \<Rightarrow> nat \<Rightarrow> events_params
    \<Rightarrow> string option \<Rightarrow> log_event list \<Rightarrow> log_event list option"
  fix c n params tok acc y
  assume IH: "\<And>c n params tok acc y. f c n params tok acc = Some y \<Longrightarrow>
          \<forall>p. tok = events_sent c p n \<and> acc = events_gathered c p n
            \<and> (if truthy tok then params\<lparr>gle_nextToken := tok\<rparr> else params) = p\<lparr>gle_nextToken := tok\<rparr>
          \<longrightarrow> (\<exists>k. events_stops c p k)"
  assume body: "(let params' = if truthy tok then params\<lparr>gle_nextToken := tok\<rparr> else params;
          response = c n params';
          stream_events' = acc @ events response;
          next_token' = nextForwardToken response
      in if \<not> truthy next_token' \<or> next_token' = gle_nextToken params'
         then Some stream_events'
         else f c (Suc n) params' next_token' stream_events') = Some y"
  show "\<forall>p. tok = events_sent c p n \<and> acc = events_gathered c p n
            \<and> (if truthy tok then params\<lparr>gle_nextToken := tok\<rparr> else params) = p\<lparr>gle_nextToken := tok\<rparr>
          \<longrightarrow> (\<exists>k. events_stops c p k)"
  proof (intro allI impI, elim conjE)
    fix p
    assume t: "tok = events_sent c p n" and a: "acc = events_gathered c p n"
      and q: "(if truthy tok then params\<lparr>gle_nextToken := tok\<rparr> else params) = p\<lparr>gle_nextToken := tok\<rparr>"
    show "\<exists>k. events_stops c p k"
    proof (cases "events_stops c p n")
      case True
      then show ?thesis by blast
    next
      case False
      from q have q': "(if truthy (events_sent c p n) then params\<lparr>gle_nextToken := events_sent c p n\<rparr> else params)
           = p\<lparr>gle_nextToken := events_sent c p n\<rparr>"
        unfolding t .
      from body have "(let params' = p\<lparr>gle_nextToken := events_sent c p n\<rparr>;
          response = c n params';
          stream_events' = events_gathered c p n @ events response;
          next_token' = nextForwardToken response
      in if \<not> truthy next_token' \<or> next_token' = gle_nextToken params'
         then Some stream_events'
         else f c (Suc n) params' next_token' stream_events') = Some y"
        unfolding t a q' .
      with False have "f c (Suc n) (p\<lparr>gle_nextToken := events_sent c p n\<rparr>)
             (events_sent c p (Suc n)) (events_gathered c p (Suc n)) = Some y"
        by (simp add: Let_def events_stops_def events_gathered_def events_page_def)
      from IH[OF this] events_inv_Suc[OF False] show ?thesis by blast
    qed
  qed
qed

lemma events_update_same_token: "gle_nextToken p = None \<Longrightarrow> p\<lparr>gle_nextToken := None\<rparr> = p"
  by (cases p) simp

lemma events_loop_returns_iff:
  assumes "gle_nextToken p = None"
  shows "(\<exists>y. events_loop c 0 p None [] = Some y) \<longleftrightarrow> (\<exists>k. events_stops c p k)"
proof
  assume "\<exists>y. events_loop c 0 p None [] = Some y"
  then obtain y where y: "events_loop c 0 p None [] = Some y" by blast
  from events_loop_Some_stops[OF y] assms show "\<exists>k. events_stops c p k"
    by (simp add: events_gathered_def events_update_same_token)
next
  assume "\<exists>k. events_stops c p k"
  then obtain k where k: "events_stops c p k" and least: "\<forall>j<k. \<not> events_stops c p j"
    using exists_least_iff[of "events_stops c p"] by blast
  from events_loop_from[OF k least, of 0 p] assms
  show "\<exists>y. events_loop c 0 p None [] = Some y"
    by (simp add: events_gathered_def events_update_same_token)
qed

lemma events_loop_first_stop:
  assumes "gle_nextToken p = None" and "events_stops c p k" and "\<forall>j<k. \<not> events_stops c p j"
  shows "events_loop c 0 p None [] = Some (events_gathered c p (Suc k))"
  using events_loop_from[OF assms(2,3), of 0 p] assms(1)
  by (simp add: events_gathered_def events_update_same_token)

lemma describe_loop_first_stop:
  assumes "dls_nextToken p = None" and "describe_stops c p limit k" and "\<forall>j<k. \<not> describe_stops c p limit j"
  shows "describe_loop c limit 0 p None [] = Some (describe_gathered c p (Suc k))"
  using describe_loop_from[OF assms(2,3), of 0 p] assms(1)
  by (simp add: describe_gathered_def describe_update_same_token)

lemma events_loop_never_stops:
  assumes "gle_nextToken p = None" and "\<forall>k. \<not> events_stops c p k"
  shows "events_loop c 0 p None [] = None"
proof (cases "events_loop c 0 p None []")
  case None
  then show ?thesis .
next
  case (Some y)
  with events_loop_returns_iff[OF assms(1), of c] assms(2) show ?thesis by blast
qed

lemma describe_loop_never_stops:
  assumes "dls_nextToken p = None" and "\<forall>k. \<not> describe_stops c p limit k"
  shows "describe_loop c limit 0 p None [] = None"
proof (cases "describe_loop c limit 0 p None []")
  case None
  then show ?thesis .
next
  case (Some y)
  with describe_loop_returns_iff[OF assms(1), of c limit] assms(2) show ?thesis by blast
qed

section \<open>Properties of the classifier\<close>

lemma starts_with_iff: "starts_with sub s \<longleftrightarrow> (\<exists>q. s = sub @ q)"
  by (induction sub s rule: starts_with.induct) auto

lemma contains_iff: "contains sub s \<longleftrightarrow> (\<exists>p q. s = p @ sub @ q)"
proof (induction s)
  case Nil
  then show ?case by auto
next
  case (Cons c cs)
  show ?case
  proof
    assume "contains sub (c # cs)"
    then consider "starts_with sub (c # cs)" | "contains sub cs" by auto
    then show "\<exists>p q. c # cs = p @ sub @ q"
    proof cases
      case 1
      then obtain q where "c # cs = sub @ q" by (auto simp: starts_with_iff)
      then have "c # cs = [] @ sub @ q" by simp
      then show ?thesis by blast
    next
      case 2
      with Cons obtain p q where "cs = p @ sub @ q" by blast
      then have "c # cs = (c # p) @ sub @ q" by simp
      then show ?thesis by blast
    qed
  next
    assume "\<exists>p q. c # cs = p @ sub @ q"
    then obtain p q where e: "c # cs = p @ sub @ q" by blast
    show "contains sub (c # cs)"
    proof (cases p)
      case Nil
      with e have "starts_with sub (c # cs)" by (auto simp: starts_with_iff)
      then show ?thesis by simp
    next
      case (Cons a p')
      with e have "cs = p' @ sub @ q" by simp
      then have "contains sub cs" using Cons.IH by blast
      then show ?thesis by simp
    qed
  qed
qed

text \<open>
  Claim C2, as amended. For a record whose resource identifier is a string, the
  classification is Run when the identifier contains \<^verbatim>\<open>:run/\<close>; Task when it contains
  \<^verbatim>\<open>:task/\<close> and does not contain \<^verbatim>\<open>:run/\<close>; Unknown when it contains neither. The test for
  \<^verbatim>\<open>:run/\<close> comes first, so an identifier containing both is a Run.
  (\<open>contains\<close> is the substring relation: lemma \<open>contains_iff\<close>.)
\<close>

theorem classify_string:
  "classify (JStr s) =
     Inr (if contains '':run/'' s then Run else if contains '':task/'' s then Task else Unknown)"
  by (simp add: classify_def)

text \<open>
  Claim C2 as stated asks for Task whenever the identifier contains \<^verbatim>\<open>:task/\<close>; an
  identifier that contains both substrings is classified Run.
\<close>

theorem classify_run_wins_over_task:
  "contains '':run/'' ''arn:aws:omics:us-east-1:123456789012:run/1:task/2'' \<and>
   contains '':task/'' ''arn:aws:omics:us-east-1:123456789012:run/1:task/2'' \<and>
   classify (JStr ''arn:aws:omics:us-east-1:123456789012:run/1:task/2'') = Inr Run"
  by code_simp

section \<open>The stream locator returns when its pagination stops\<close>

lemma find_log_streams_unfold:
  "find_log_streams_by_prefix session log_group_name prefix region limit order_by descending profile_name =
     (case describe_loop (describe_log_streams (session (if truthy profile_name then profile_name else None) region))
             limit 0 (describe_request log_group_name prefix limit order_by descending) None [] of
        None \<Rightarrow> None
      | Some all_streams \<Rightarrow>
          Some (if limit_exceeded limit (length all_streams)
                then slice_to all_streams (case limit of Some l \<Rightarrow> l | None \<Rightarrow> 0)
                else all_streams))"
  by (simp add: find_log_streams_by_prefix_def Let_def)

lemma describe_request_no_token: "dls_nextToken (describe_request g pre limit ob d) = None"
  by (simp add: describe_request_def)

lemma concat_empty_pages: "concat (map (\<lambda>j. []) js) = []"
  by (induction js) simp_all

text \<open>
  Claim C8, as amended. \<^verbatim>\<open>find_log_streams_by_prefix\<close> returns exactly when the
  pagination stops, that is when some page carries no continuation token or brings the
  number of streams gathered up to the limit. When it stops, at the \<open>k\<close>-th page, and a
  positive limit \<open>l\<close> is given, the result is the first \<open>l\<close> streams of the pages up to
  that one, so at most \<open>l\<close> streams; when no limit is given (or the limit is 0, which
  the code treats as none) the result is the concatenation of the pages up to that
  one. Against a service whose pagination never stops, the function does not return.
\<close>

theorem find_log_streams_returns:
  fixes session :: sessions
    and log_group_name prefix region order_by :: string
    and limit :: "int option" and descending :: bool and profile_name :: "string option"
  defines "c \<equiv> describe_log_streams (session (if truthy profile_name then profile_name else None) region)"
    and "p \<equiv> describe_request log_group_name prefix limit order_by descending"
    and "result \<equiv> find_log_streams_by_prefix session log_group_name prefix region limit order_by
                     descending profile_name"
  shows "((\<exists>xs. result = Some xs) \<longleftrightarrow> (\<exists>k. describe_stops c p limit k))
       \<and> (\<forall>k l. describe_stops c p limit k \<and> (\<forall>j<k. \<not> describe_stops c p limit j)
                 \<and> limit = Some l \<and> 0 < l \<longrightarrow>
              result = Some (take (nat l) (describe_gathered c p (Suc k)))
              \<and> length (take (nat l) (describe_gathered c p (Suc k))) \<le> nat l)
       \<and> (\<forall>k. describe_stops c p limit k \<and> (\<forall>j<k. \<not> describe_stops c p limit j)
               \<and> \<not> truthy_int limit \<longrightarrow>
              result = Some (describe_gathered c p (Suc k)))"
proof (intro conjI allI impI)
  have r: "result = (case describe_loop c limit 0 p None [] of
        None \<Rightarrow> None
      | Some all_streams \<Rightarrow>
          Some (if limit_exceeded limit (length all_streams)
                then slice_to all_streams (case limit of Some l \<Rightarrow> l | None \<Rightarrow> 0)
                else all_streams))"
    unfolding result_def c_def p_def by (rule find_log_streams_unfold)
  have p0: "dls_nextToken p = None" unfolding p_def by (rule describe_request_no_token)
  have "(\<exists>xs. result = Some xs) \<longleftrightarrow> (\<exists>y. describe_loop c limit 0 p None [] = Some y)"
    unfolding r by (cases "describe_loop c limit 0 p None []") simp_all
  with describe_loop_returns_iff[OF p0, of c limit]
  show "(\<exists>xs. result = Some xs) \<longleftrightarrow> (\<exists>k. describe_stops c p limit k)" by simp
  {
    fix k l
    assume h: "describe_stops c p limit k \<and> (\<forall>j<k. \<not> describe_stops c p limit j)
                 \<and> limit = Some l \<and> 0 < l"
    then have "describe_loop c limit 0 p None [] = Some (describe_gathered c p (Suc k))"
      using describe_loop_first_stop[OF p0] by blast
    with h show "result = Some (take (nat l) (describe_gathered c p (Suc k)))"
      unfolding r by (auto simp: limit_exceeded_def slice_to_def)
    show "length (take (nat l) (describe_gathered c p (Suc k))) \<le> nat l" by simp
  }
  {
    fix k
    assume h: "describe_stops c p limit k \<and> (\<forall>j<k. \<not> describe_stops c p limit j)
               \<and> \<not> truthy_int limit"
    then have "describe_loop c limit 0 p None [] = Some (describe_gathered c p (Suc k))"
      using describe_loop_first_stop[OF p0] by blast
    with h show "result = Some (describe_gathered c p (Suc k))"
      unfolding r by (cases limit) (auto simp: limit_exceeded_def)
  }
qed

theorem find_log_streams_returns_witness:
  "find_log_streams_by_prefix two_page_logs ''/aws/omics/WorkflowLog'' ''manifest/run/1'' ''us-east-1''
     (Some 3) ''LogStreamName'' True None
   = Some [\<lparr>logStreamName = ''s1'', lastEventTimestamp = 1\<rparr>,
           \<lparr>logStreamName = ''s2'', lastEventTimestamp = 2\<rparr>,
           \<lparr>logStreamName = ''s3'', lastEventTimestamp = 3\<rparr>]
   \<and> find_log_streams_by_prefix two_page_logs ''/aws/omics/WorkflowLog'' ''manifest/run/1'' ''us-east-1''
     None ''LogStreamName'' True None
   = Some [\<lparr>logStreamName = ''s1'', lastEventTimestamp = 1\<rparr>,
           \<lparr>logStreamName = ''s2'', lastEventTimestamp = 2\<rparr>,
           \<lparr>logStreamName = ''s3'', lastEventTimestamp = 3\<rparr>,
           \<lparr>logStreamName = ''s4'', lastEventTimestamp = 4\<rparr>]"
proof
  let ?c = "describe_log_streams (two_page_logs (if truthy None then None else None) ''us-east-1'')"
  let ?p3 = "describe_request ''/aws/omics/WorkflowLog'' ''manifest/run/1'' (Some 3) ''LogStreamName'' True"
  let ?p = "describe_request ''/aws/omics/WorkflowLog'' ''manifest/run/1'' None ''LogStreamName'' True"
  have g3: "describe_gathered ?c ?p3 (Suc (Suc 0))
            = [\<lparr>logStreamName = ''s1'', lastEventTimestamp = 1\<rparr>,
               \<lparr>logStreamName = ''s2'', lastEventTimestamp = 2\<rparr>,
               \<lparr>logStreamName = ''s3'', lastEventTimestamp = 3\<rparr>,
               \<lparr>logStreamName = ''s4'', lastEventTimestamp = 4\<rparr>]"
    by (simp add: describe_gathered_def describe_page_def two_page_logs_def)
  have g: "describe_gathered ?c ?p (Suc (Suc 0))
            = [\<lparr>logStreamName = ''s1'', lastEventTimestamp = 1\<rparr>,
               \<lparr>logStreamName = ''s2'', lastEventTimestamp = 2\<rparr>,
               \<lparr>logStreamName = ''s3'', lastEventTimestamp = 3\<rparr>,
               \<lparr>logStreamName = ''s4'', lastEventTimestamp = 4\<rparr>]"
    by (simp add: describe_gathered_def describe_page_def two_page_logs_def)
  have s3: "describe_stops ?c ?p3 (Some 3) (Suc 0)"
    by (simp add: describe_stops_def two_page_logs_def)
  have n3: "\<forall>j<Suc 0. \<not> describe_stops ?c ?p3 (Some 3) j"
    by (simp add: describe_stops_def describe_gathered_def describe_page_def two_page_logs_def
        limit_reached_def)
  have s: "describe_stops ?c ?p None (Suc 0)"
    by (simp add: describe_stops_def two_page_logs_def)
  have n: "\<forall>j<Suc 0. \<not> describe_stops ?c ?p None j"
    by (simp add: describe_stops_def describe_gathered_def describe_page_def two_page_logs_def
        limit_reached_def)
  have "find_log_streams_by_prefix two_page_logs ''/aws/omics/WorkflowLog'' ''manifest/run/1'' ''us-east-1''
     (Some 3) ''LogStreamName'' True None = Some (take (nat 3) (describe_gathered ?c ?p3 (Suc (Suc 0))))"
    by (rule find_log_streams_returns[where session = two_page_logs and profile_name = None
          and region = "''us-east-1''" and limit = "Some 3"
          and log_group_name = "''/aws/omics/WorkflowLog''" and prefix = "''manifest/run/1''"
          and order_by = "''LogStreamName''" and descending = True, THEN conjunct2, THEN conjunct1, rule_format, of "Suc 0" 3,
          THEN conjunct1])
      (intro conjI s3 n3 refl, simp)
  then show "find_log_streams_by_prefix two_page_logs ''/aws/omics/WorkflowLog'' ''manifest/run/1'' ''us-east-1''
     (Some 3) ''LogStreamName'' True None
   = Some [\<lparr>logStreamName = ''s1'', lastEventTimestamp = 1\<rparr>,
           \<lparr>logStreamName = ''s2'', lastEventTimestamp = 2\<rparr>,
           \<lparr>logStreamName = ''s3'', lastEventTimestamp = 3\<rparr>]"
    unfolding g3 by simp
  have "find_log_streams_by_prefix two_page_logs ''/aws/omics/WorkflowLog'' ''manifest/run/1'' ''us-east-1''
     None ''LogStreamName'' True None = Some (describe_gathered ?c ?p (Suc (Suc 0)))"
    by (rule find_log_streams_returns[where session = two_page_logs and profile_name = None
          and region = "''us-east-1''" and limit = None
          and log_group_name = "''/aws/omics/WorkflowLog''" and prefix = "''manifest/run/1''"
          and order_by = "''LogStreamName''" and descending = True, THEN conjunct2, THEN conjunct2, rule_format, of "Suc 0"])
      (intro conjI s n, simp)
  then show "find_log_streams_by_prefix two_page_logs ''/aws/omics/WorkflowLog'' ''manifest/run/1'' ''us-east-1''
     None ''LogStreamName'' True None
   = Some [\<lparr>logStreamName = ''s1'', lastEventTimestamp = 1\<rparr>,
           \<lparr>logStreamName = ''s2'', lastEventTimestamp = 2\<rparr>,
           \<lparr>logStreamName = ''s3'', lastEventTimestamp = 3\<rparr>,
           \<lparr>logStreamName = ''s4'', lastEventTimestamp = 4\<rparr>]"
    unfolding g .
qed

text \<open>
  Claim C8 as stated fails twice. With the limit 10 of the handler and a service that
  answers every request with an empty page and a continuation token, the loop never
  ends and nothing is returned. With the limit 0, the limit is not applied and four
  streams are returned.
\<close>

theorem find_log_streams_unbounded:
  "find_log_streams_by_prefix stable_token_logs ''/aws/omics/WorkflowLog'' ''manifest/run/1'' ''us-east-1''
     (Some 10) ''LogStreamName'' True None = None
   \<and> find_log_streams_by_prefix two_page_logs ''/aws/omics/WorkflowLog'' ''manifest/run/1'' ''us-east-1''
     (Some 0) ''LogStreamName'' True None
   = Some [\<lparr>logStreamName = ''s1'', lastEventTimestamp = 1\<rparr>,
           \<lparr>logStreamName = ''s2'', lastEventTimestamp = 2\<rparr>,
           \<lparr>logStreamName = ''s3'', lastEventTimestamp = 3\<rparr>,
           \<lparr>logStreamName = ''s4'', lastEventTimestamp = 4\<rparr>]"
proof
  let ?c = "describe_log_streams (stable_token_logs (if truthy None then None else None) ''us-east-1'')"
  let ?p = "describe_request ''/aws/omics/WorkflowLog'' ''manifest/run/1'' (Some 10) ''LogStreamName'' True"
  have "describe_gathered ?c ?p n = []" for n
    by (simp add: describe_gathered_def describe_page_def stable_token_logs_def concat_empty_pages)
  then have "\<forall>k. \<not> describe_stops ?c ?p (Some 10) k"
    by (simp add: describe_stops_def stable_token_logs_def limit_reached_def)
  then have "describe_loop ?c (Some 10) 0 ?p None [] = None"
    by (rule describe_loop_never_stops[OF describe_request_no_token])
  then show "find_log_streams_by_prefix stable_token_logs ''/aws/omics/WorkflowLog'' ''manifest/run/1''
      ''us-east-1'' (Some 10) ''LogStreamName'' True None = None"
    by (simp add: find_log_streams_unfold)
next
  let ?c = "describe_log_streams (two_page_logs (if truthy None then None else None) ''us-east-1'')"
  let ?p = "describe_request ''/aws/omics/WorkflowLog'' ''manifest/run/1'' (Some 0) ''LogStreamName'' True"
  have g: "describe_gathered ?c ?p (Suc (Suc 0))
            = [\<lparr>logStreamName = ''s1'', lastEventTimestamp = 1\<rparr>,
               \<lparr>logStreamName = ''s2'', lastEventTimestamp = 2\<rparr>,
               \<lparr>logStreamName = ''s3'', lastEventTimestamp = 3\<rparr>,
               \<lparr>logStreamName = ''s4'', lastEventTimestamp = 4\<rparr>]"
    by (simp add: describe_gathered_def describe_page_def two_page_logs_def)
  have s: "describe_stops ?c ?p (Some 0) (Suc 0)"
    by (simp add: describe_stops_def two_page_logs_def)
  have n: "\<forall>j<Suc 0. \<not> describe_stops ?c ?p (Some 0) j"
    by (simp add: describe_stops_def describe_gathered_def describe_page_def two_page_logs_def
        limit_reached_def)
  from describe_loop_first_stop[OF describe_request_no_token s n]
  have "describe_loop ?c (Some 0) 0 ?p None [] = Some (describe_gathered ?c ?p (Suc (Suc 0)))" .
  then show "find_log_streams_by_prefix two_page_logs ''/aws/omics/WorkflowLog'' ''manifest/run/1'' ''us-east-1''
     (Some 0) ''LogStreamName'' True None
   = Some [\<lparr>logStreamName = ''s1'', lastEventTimestamp = 1\<rparr>,
           \<lparr>logStreamName = ''s2'', lastEventTimestamp = 2\<rparr>,
           \<lparr>logStreamName = ''s3'', lastEventTimestamp = 3\<rparr>,
           \<lparr>logStreamName = ''s4'', lastEventTimestamp = 4\<rparr>]"
    unfolding g by (simp add: find_log_streams_unfold limit_exceeded_def)
qed

section \<open>The event pagination returns when it stops\<close>

lemma events_request_no_token: "gle_nextToken (events_request g s st et) = None"
  by (simp add: events_request_def)

lemma events_stable_token_two_calls:
  assumes p0: "gle_nextToken p = None" and t: "t \<noteq> []"
    and c: "\<forall>n q. nextForwardToken (c n q) = Some t"
  shows "events_loop c 0 p None [] = Some (events (c 0 p) @ events (c (Suc 0) (p\<lparr>gle_nextToken := Some t\<rparr>)))"
proof -
  have s: "events_sent c p (Suc n) = Some t" for n using c by simp
  have s1: "events_stops c p (Suc 0)" by (simp only: events_stops_def s) simp
  have n0: "\<forall>j<Suc 0. \<not> events_stops c p j"
    using t by (simp add: events_stops_def c)
  have "events_gathered c p (Suc (Suc 0))
        = events (c 0 p) @ events (c (Suc 0) (p\<lparr>gle_nextToken := Some t\<rparr>))"
    using p0 c by (simp add: events_gathered_def events_page_def events_update_same_token)
  with events_loop_first_stop[OF p0 s1 n0] show ?thesis by simp
qed

text \<open>
  Claim C4, as amended. The event pagination of one stream returns exactly when some
  page carries no continuation token or carries the token its own request was sent
  with; it returns at the first such page, with the events of all pages up to it. In
  particular a service that answers every request with the same token makes the loop
  leave after its second request. A service that answers every request with a token
  not seen before keeps the loop running for ever.
\<close>

theorem events_loop_termination:
  assumes "gle_nextToken p = None"
  shows "((\<exists>evs. events_loop c 0 p None [] = Some evs) \<longleftrightarrow> (\<exists>k. events_stops c p k))
       \<and> (\<forall>k. events_stops c p k \<and> (\<forall>j<k. \<not> events_stops c p j) \<longrightarrow>
              events_loop c 0 p None [] = Some (events_gathered c p (Suc k)))
       \<and> (\<forall>t. t \<noteq> [] \<and> (\<forall>n q. nextForwardToken (c n q) = Some t) \<longrightarrow>
              events_loop c 0 p None []
              = Some (events (c 0 p) @ events (c (Suc 0) (p\<lparr>gle_nextToken := Some t\<rparr>))))"
proof (intro conjI allI impI)
  show "(\<exists>evs. events_loop c 0 p None [] = Some evs) \<longleftrightarrow> (\<exists>k. events_stops c p k)"
    using assms by (rule events_loop_returns_iff)
next
  fix k
  assume "events_stops c p k \<and> (\<forall>j<k. \<not> events_stops c p j)"
  then show "events_loop c 0 p None [] = Some (events_gathered c p (Suc k))"
    using events_loop_first_stop[OF assms] by blast
next
  fix t
  assume "t \<noteq> [] \<and> (\<forall>n q. nextForwardToken (c n q) = Some t)"
  then show "events_loop c 0 p None []
              = Some (events (c 0 p) @ events (c (Suc 0) (p\<lparr>gle_nextToken := Some t\<rparr>)))"
    using events_stable_token_two_calls[OF assms] by blast
qed

theorem events_loop_termination_witness:
  "gle_nextToken (events_request ''/aws/omics/WorkflowLog'' ''manifest/run/1/s'' None None) = None
   \<and> events_loop (get_log_events (stable_token_logs None ''us-east-1'')) 0
       (events_request ''/aws/omics/WorkflowLog'' ''manifest/run/1/s'' None None) None []
     = Some [\<lparr>timestamp = 0, message = Inl JSONDecodeError\<rparr>, \<lparr>timestamp = 1, message = Inl JSONDecodeError\<rparr>]"
proof
  let ?p = "events_request ''/aws/omics/WorkflowLog'' ''manifest/run/1/s'' None None"
  let ?c = "get_log_events (stable_token_logs None ''us-east-1'')"
  show p0: "gle_nextToken ?p = None" by (rule events_request_no_token)
  have "events_loop ?c 0 ?p None []
        = Some (events (?c 0 ?p) @ events (?c (Suc 0) (?p\<lparr>gle_nextToken := Some ''f/0''\<rparr>)))"
    by (rule events_loop_termination[OF p0, of ?c, THEN conjunct2, THEN conjunct2, rule_format,
          of "''f/0''"])
      (simp add: stable_token_logs_def)
  then show "events_loop ?c 0 ?p None []
     = Some [\<lparr>timestamp = 0, message = Inl JSONDecodeError\<rparr>, \<lparr>timestamp = 1, message = Inl JSONDecodeError\<rparr>]"
    by (simp add: stable_token_logs_def)
qed

text \<open>
  Claim C4 as stated promises termination for every sequence of responses; against
  \<open>fresh_token_logs\<close> the loop never returns.
\<close>

theorem events_loop_fresh_tokens_never_ends:
  "events_loop (get_log_events (fresh_token_logs None ''us-east-1'')) 0
       (events_request ''/aws/omics/WorkflowLog'' ''manifest/run/1/s'' None None) None [] = None"
proof -
  let ?p = "events_request ''/aws/omics/WorkflowLog'' ''manifest/run/1/s'' None None"
  let ?c = "get_log_events (fresh_token_logs None ''us-east-1'')"
  have s: "events_sent ?c ?p (Suc n) = Some (replicate (Suc n) CHR ''t'')" for n
    by (simp add: fresh_token_logs_def)
  have "\<not> events_stops ?c ?p k" for k
  proof (cases k)
    case 0
    then show ?thesis by (simp add: events_stops_def fresh_token_logs_def)
  next
    case (Suc m)
    have "replicate (Suc (Suc m)) CHR ''t'' \<noteq> replicate (Suc m) CHR ''t''"
      by (metis length_replicate n_not_Suc_n)
    then show ?thesis unfolding Suc events_stops_def s by simp
  qed
  then have "\<forall>k. \<not> events_stops ?c ?p k" by blast
  then show ?thesis by (rule events_loop_never_stops[OF events_request_no_token])
qed

section \<open>Properties of the orchestrator\<close>

lemma exceeds_map_of:
  "map_of kvs k = Some v \<Longrightarrow> exceeds_str_digits v \<Longrightarrow> exceeds_items kvs"
  by (induction kvs) (auto split: if_splits)

lemma subscript_exceeds:
  "subscript v k = Inr w \<Longrightarrow> exceeds_str_digits w \<Longrightarrow> exceeds_str_digits v"
  by (cases v) (auto split: option.splits dest: exceeds_map_of)

lemma py_str_Inr: "\<not> exceeds_str_digits v \<Longrightarrow> py_str v = Inr (str_text v)"
  by (simp add: py_str_def)

lemma json_dumps_Inr: "\<not> exceeds_str_digits v \<Longrightarrow> json_dumps v = Inr v"
  by (simp add: json_dumps_def)

lemma convert_str_schema_total:
  "(\<forall>k t. map_of S k = Some t \<longrightarrow> t = TStr) \<longrightarrow> \<not> exceeds_str_digits v \<longrightarrow>
     (\<exists>v' out. convert_data_types v S = Inr (v', out) \<and> \<not> exceeds_str_digits v')"
  "(\<forall>k t. map_of S k = Some t \<longrightarrow> t = TStr) \<longrightarrow> \<not> exceeds_items kvs \<longrightarrow>
     (\<exists>kvs' out. convert_items kvs S = Inr (kvs', out) \<and> \<not> exceeds_items kvs')"
  "(\<forall>k t. map_of S k = Some t \<longrightarrow> t = TStr) \<longrightarrow> \<not> exceeds_elems xs \<longrightarrow>
     (\<exists>xs' out. convert_elems xs S = Inr (xs', out) \<and> \<not> exceeds_elems xs')"
proof (induction v S and kvs S and xs S
       rule: convert_data_types_convert_items_convert_elems.induct)
  case (1 kvs type_mapping)
  show ?case
  proof (intro impI)
    assume a: "\<forall>k t. map_of type_mapping k = Some t \<longrightarrow> t = TStr"
      and n: "\<not> exceeds_str_digits (JObj kvs)"
    with 1 obtain kvs' out where "convert_items kvs type_mapping = Inr (kvs', out)"
      and "\<not> exceeds_items kvs'" by auto
    then show "\<exists>v' out. convert_data_types (JObj kvs) type_mapping = Inr (v', out) \<and> \<not> exceeds_str_digits v'"
      by simp
  qed
next
  case (2 xs type_mapping)
  show ?case
  proof (intro impI)
    assume a: "\<forall>k t. map_of type_mapping k = Some t \<longrightarrow> t = TStr"
      and n: "\<not> exceeds_str_digits (JList xs)"
    with 2 obtain xs' out where "convert_elems xs type_mapping = Inr (xs', out)"
      and "\<not> exceeds_elems xs'" by auto
    then show "\<exists>v' out. convert_data_types (JList xs) type_mapping = Inr (v', out) \<and> \<not> exceeds_str_digits v'"
      by simp
  qed
next
  case (9 key "value" rest type_mapping)
  show ?case
  proof (intro impI)
    assume a: "\<forall>k t. map_of type_mapping k = Some t \<longrightarrow> t = TStr"
      and n: "\<not> exceeds_items ((key, value) # rest)"
    from n have nv: "\<not> exceeds_str_digits value" and nr: "\<not> exceeds_items rest" by simp_all
    have "\<exists>v' o1. convert_field key value type_mapping = Inr (v', o1) \<and> \<not> exceeds_str_digits v'"
    proof (cases "map_of type_mapping key")
      case None
      show ?thesis
      proof (cases "is_container value")
        case True
        with 9(1)[OF None True] a nv None show ?thesis by (simp add: convert_field_unknown)
      next
        case False
        with None nv show ?thesis by (simp add: convert_field_unknown)
      qed
    next
      case (Some t)
      with a have "t = TStr" by blast
      with Some nv show ?thesis by (simp add: convert_field_def py_str_def)
    qed
    then obtain v' o1 where f: "convert_field key value type_mapping = Inr (v', o1)"
      and nv': "\<not> exceeds_str_digits v'" by blast
    from 9(2)[OF f[unfolded convert_field_def] refl] a nr
    obtain rest' o2 where r: "convert_items rest type_mapping = Inr (rest', o2)"
      and nr': "\<not> exceeds_items rest'" by blast
    from f r nv' nr'
    show "\<exists>kvs' out. convert_items ((key, value) # rest) type_mapping = Inr (kvs', out) \<and> \<not> exceeds_items kvs'"
      by (simp add: convert_items_Cons)
  qed
next
  case (11 item rest type_mapping)
  show ?case
  proof (intro impI)
    assume a: "\<forall>k t. map_of type_mapping k = Some t \<longrightarrow> t = TStr"
      and n: "\<not> exceeds_elems (item # rest)"
    from n have nv: "\<not> exceeds_str_digits item" and nr: "\<not> exceeds_elems rest" by simp_all
    have "\<exists>v' o1. (if is_container item then convert_data_types item type_mapping else Inr (item, [])) = Inr (v', o1)
            \<and> \<not> exceeds_str_digits v'"
    proof (cases "is_container item")
      case True
      with 11(1)[OF True] a nv show ?thesis by simp
    next
      case False
      with nv show ?thesis by simp
    qed
    then obtain v' o1
      where f: "(if is_container item then convert_data_types item type_mapping else Inr (item, [])) = Inr (v', o1)"
      and nv': "\<not> exceeds_str_digits v'"
      by blast
    from 11(2)[OF f refl] a nr obtain rest' o2 where r: "convert_elems rest type_mapping = Inr (rest', o2)"
      and nr': "\<not> exceeds_elems rest'" by blast
    show "\<exists>xs' out. convert_elems (item # rest) type_mapping = Inr (xs', out) \<and> \<not> exceeds_elems xs'"
    proof (cases "is_container item")
      case True
      with f r nv' nr' show ?thesis by simp
    next
      case False
      with f r nv' nr' show ?thesis by simp
    qed
  qed
qed simp_all

lemma run_schema_all_str: "map_of RUN_MANIFEST_SCHEMA k = Some t \<Longrightarrow> t = TStr"
  by (simp add: RUN_MANIFEST_SCHEMA_def split: if_splits)

lemma stored_content_run_total:
  assumes "\<not> exceeds_str_digits m"
  shows "\<exists>b out. convert_data_types m RUN_MANIFEST_SCHEMA = Inr (b, out)
           \<and> stored_content m RUN_MANIFEST_SCHEMA = Inr b"
proof -
  have "\<forall>k t. map_of RUN_MANIFEST_SCHEMA k = Some t \<longrightarrow> t = TStr"
    using run_schema_all_str by blast
  with convert_str_schema_total(1)[of RUN_MANIFEST_SCHEMA m] assms
  obtain b out where "convert_data_types m RUN_MANIFEST_SCHEMA = Inr (b, out)"
    and "\<not> exceeds_str_digits b" by blast
  then show ?thesis by (auto simp: stored_content_def json_dumps_def)
qed

lemma stored_content_Inr:
  "stored_content m S = Inr b \<longleftrightarrow> (\<exists>out. convert_data_types m S = Inr (b, out)) \<and> \<not> exceeds_str_digits b"
  by (auto simp: stored_content_def json_dumps_def split: sum.splits if_splits)

lemma write_json_to_s3_eq:
  "(case convert_data_types m S of
      Inl e \<Rightarrow> (Inl e, store)
    | Inr (transformed, out) \<Rightarrow> write_json_to_s3 bucket k transformed store)
   = (case stored_content m S of
        Inl e \<Rightarrow> (Inl e, store)
      | Inr content \<Rightarrow> (Inr (), store @ [(bucket, k, content)]))"
  by (simp add: stored_content_def write_json_to_s3_def json_dumps_def split: sum.splits prod.splits)

lemma store_message_eq:
  assumes "key_run = prefix @ ''/runs/'' @ run_id_text @ ''.json''"
  shows "store_message bucket prefix key_run ev store =
     (case expected_put bucket prefix run_id_text ev of
        Inl e \<Rightarrow> (Inl e, store)
      | Inr put \<Rightarrow> (Inr (), store @ [put]))"
proof (cases "message ev")
  case (Inl e)
  then show ?thesis by (simp add: store_message_def expected_put_def)
next
  case m: (Inr m)
  show ?thesis
  proof (cases "exceeds_str_digits m")
    case True
    with m show ?thesis by (simp add: store_message_def expected_put_def py_str_def)
  next
    case False
    then have p: "py_str m = Inr (str_text m)" by (rule py_str_Inr)
    show ?thesis
    proof (cases "subscript m ''arn''")
      case (Inl e)
      with m p show ?thesis by (simp add: store_message_def expected_put_def)
    next
      case a: (Inr arn)
      from subscript_exceeds[OF a] False have "\<not> exceeds_str_digits arn" by blast
      then have pa: "py_str arn = Inr (str_text arn)" by (rule py_str_Inr)
      show ?thesis
      proof (cases "classify arn")
        case (Inl e)
        with m p a show ?thesis by (simp add: store_message_def expected_put_def)
      next
        case (Inr kind)
        show ?thesis
        proof (cases kind)
          case Run
          with m p a Inr assms show ?thesis
            by (simp add: store_message_def expected_put_def write_json_to_s3_eq destination_key_def
                split: sum.splits)
        next
          case Task
          with m p a Inr show ?thesis
            by (simp add: store_message_def expected_put_def write_json_to_s3_eq destination_key_def
                split: sum.splits)
        next
          case Unknown
          with m p a pa Inr show ?thesis by (simp add: store_message_def expected_put_def)
        qed
      qed
    qed
  qed
qed

lemma store_events_eq:
  assumes "key_run = prefix @ ''/runs/'' @ run_id_text @ ''.json''"
  shows "store_events bucket prefix key_run evs store =
     ((case first_raised (map (expected_put bucket prefix run_id_text) evs) of
         Some e \<Rightarrow> Inl e
       | None \<Rightarrow> Inr ()),
      store @ puts_made (map (expected_put bucket prefix run_id_text) evs))"
proof (induction evs arbitrary: store)
  case Nil
  then show ?case by simp
next
  case (Cons ev evs)
  show ?case
  proof (cases "expected_put bucket prefix run_id_text ev")
    case (Inl e)
    then show ?thesis by (simp add: store_message_eq[OF assms])
  next
    case (Inr put)
    with Cons[of "store @ [put]"] show ?thesis by (simp add: store_message_eq[OF assms])
  qed
qed

lemma store_events_append:
  "store_events bucket prefix key_run (xs @ ys) store =
     (case store_events bucket prefix key_run xs store of
        (Inl e, store') \<Rightarrow> (Inl e, store')
      | (Inr u, store') \<Rightarrow> store_events bucket prefix key_run ys store')"
proof (induction xs arbitrary: store)
  case Nil
  then show ?case by simp
next
  case (Cons x xs)
  obtain r s' where p: "store_message bucket prefix key_run x store = (r, s')"
    by (cases "store_message bucket prefix key_run x store")
  show ?case
  proof (cases r)
    case (Inl e)
    with p show ?thesis by simp
  next
    case (Inr u)
    with p Cons[of s'] show ?thesis by simp
  qed
qed

lemma store_buckets_concat:
  "store_buckets bucket prefix key_run buckets store
   = store_events bucket prefix key_run (concat (map snd buckets)) store"
proof (induction buckets arbitrary: store)
  case Nil
  then show ?case by simp
next
  case (Cons b bs)
  obtain name evs where b: "b = (name, evs)" by (cases b)
  show ?case
  proof (cases "store_events bucket prefix key_run evs store")
    case (Pair r s')
    with Cons b show ?thesis
      by (cases r) (simp_all add: store_events_append)
  qed
qed

lemma puts_made_nth:
  "i < length (puts_made rs) \<Longrightarrow> i < length rs \<and> rs ! i = Inr (puts_made rs ! i)"
proof (induction rs arbitrary: i rule: puts_made.induct)
  case 1
  then show ?case by simp
next
  case (2 e rs)
  then show ?case by simp
next
  case (3 put rs)
  then show ?case by (cases i) auto
qed

lemma first_raised_None_iff: "first_raised rs = None \<longleftrightarrow> length (puts_made rs) = length rs"
proof (induction rs rule: puts_made.induct)
  case (2 e rs)
  show ?case by simp
next
  case (3 put rs)
  then show ?case by simp
qed simp

lemma first_raised_Some:
  "first_raised rs = Some e \<Longrightarrow> length (puts_made rs) < length rs \<and> rs ! length (puts_made rs) = Inl e"
  by (induction rs rule: puts_made.induct) simp_all

section \<open>What the handler returns\<close>

lemma lambda_handler_with_run_id:
  assumes "py_index (py_split CHR '':'' invoked_function_arn) 3 = Inr region"
    and "map_of environ ''DATA_LAKE_BUCKET'' = Some bucket"
    and "\<not> exceeds_str_digits event"
    and "subscript event ''detail'' = Inr detail"
    and "subscript detail ''runId'' = Inr run_id"
  shows "lambda_handler session invoked_function_arn environ event store =
     (case find_log_streams_by_prefix session ''/aws/omics/WorkflowLog'' (''manifest/run/'' @ str_text run_id)
             region (Some 10) ''LogStreamName'' True None of
        None \<Rightarrow> None
      | Some streams \<Rightarrow>
          (case py_index streams 0 of
             Inl e \<Rightarrow> Some (Inl e, store)
           | Inr stream \<Rightarrow>
               (case get_log_events_by_stream_prefix session ''/aws/omics/WorkflowLog''
                       (logStreamName stream) region None None 1 None of
                  None \<Rightarrow> None
                | Some all_events \<Rightarrow>
                    (case store_buckets bucket (environ_get environ ''S3_PREFIX'' [])
                            (environ_get environ ''S3_PREFIX'' [] @ ''/runs/'' @ str_text run_id @ ''.json'')
                            all_events store of
                       (Inl e, store') \<Rightarrow> Some (Inl e, store')
                     | (Inr u, store') \<Rightarrow>
                         Some (Inr \<lparr>statusCode = 200, body = ''Manifest ETL complete''\<rparr>, store')))))"
proof -
  from subscript_exceeds[OF assms(4)] subscript_exceeds[OF assms(5)] assms(3)
  have "\<not> exceeds_str_digits run_id" by blast
  then have "py_str run_id = Inr (str_text run_id)" by (rule py_str_Inr)
  with assms json_dumps_Inr[OF assms(3)] show ?thesis
    unfolding lambda_handler_def Let_def by simp
qed

lemma lambda_handler_exceeds:
  assumes "py_index (py_split CHR '':'' invoked_function_arn) 3 = Inr region"
    and "map_of environ ''DATA_LAKE_BUCKET'' = Some bucket"
    and "exceeds_str_digits event"
  shows "lambda_handler session invoked_function_arn environ event store = Some (Inl ValueError, store)"
  using assms unfolding lambda_handler_def Let_def by (simp add: json_dumps_def)

lemma lambda_handler_stores:
  assumes "py_index (py_split CHR '':'' invoked_function_arn) 3 = Inr region"
    and "map_of environ ''DATA_LAKE_BUCKET'' = Some bucket"
    and "\<not> exceeds_str_digits event"
    and "subscript event ''detail'' = Inr detail"
    and "subscript detail ''runId'' = Inr run_id"
    and "find_log_streams_by_prefix session ''/aws/omics/WorkflowLog'' (''manifest/run/'' @ str_text run_id)
           region (Some 10) ''LogStreamName'' True None = Some (stream # others)"
    and "get_log_events_by_stream_prefix session ''/aws/omics/WorkflowLog'' (logStreamName stream)
           region None None 1 None = Some buckets"
  shows "lambda_handler session invoked_function_arn environ event store =
     Some (invocation_result
             (first_raised (map (expected_put bucket (environ_get environ ''S3_PREFIX'' []) (str_text run_id))
                              (concat (map snd buckets)))),
           store @ puts_made (map (expected_put bucket (environ_get environ ''S3_PREFIX'' []) (str_text run_id))
                                (concat (map snd buckets))))"
proof -
  define prefix where "prefix = environ_get environ ''S3_PREFIX'' []"
  define key_run where "key_run = prefix @ ''/runs/'' @ str_text run_id @ ''.json''"
  have "lambda_handler session invoked_function_arn environ event store =
     (case store_buckets bucket prefix key_run buckets store of
        (Inl e, store') \<Rightarrow> Some (Inl e, store')
      | (Inr u, store') \<Rightarrow> Some (Inr \<lparr>statusCode = 200, body = ''Manifest ETL complete''\<rparr>, store'))"
    using assms(6,7)
    by (simp add: lambda_handler_with_run_id[OF assms(1-5)] py_index_def key_run_def prefix_def)
  then show ?thesis
    unfolding prefix_def[symmetric]
    by (simp add: store_buckets_concat store_events_eq[OF key_run_def] invocation_result_def
        split: option.splits)
qed

lemma lambda_handler_status_codes:
  assumes "lambda_handler session invoked_function_arn environ event store = Some (Inr r, store')"
  shows "statusCode r = 200 \<or> statusCode r = 400"
proof -
  have "\<exists>x. lambda_handler session invoked_function_arn environ event store
            \<in> {None, Some (Inl x, store'),
               Some (Inr \<lparr>statusCode = 400, body = [CHR 0x22] @ ''Missing required event detail'' @ [CHR 0x22]\<rparr>, store'),
               Some (Inr \<lparr>statusCode = 200, body = ''Manifest ETL complete''\<rparr>, store')}"
    using assms unfolding lambda_handler_def Let_def
    by (auto split: sum.splits option.splits prod.splits exn.splits)
  with assms show ?thesis by auto
qed

lemma missing_run_id_is_400:
  assumes "py_index (py_split CHR '':'' invoked_function_arn) 3 = Inr region"
    and "map_of environ ''DATA_LAKE_BUCKET'' = Some bucket"
    and "\<not> exceeds_str_digits event"
    and "event = JObj entries"
    and "map_of entries ''detail'' = None
         \<or> (\<exists>d. map_of entries ''detail'' = Some (JObj d) \<and> map_of d ''runId'' = None)"
  shows "lambda_handler session invoked_function_arn environ event store
         = Some (Inr \<lparr>statusCode = 400,
                      body = [CHR 0x22] @ ''Missing required event detail'' @ [CHR 0x22]\<rparr>, store)"
proof -
  from assms(4,5)
  have "(case subscript event ''detail'' of Inl e \<Rightarrow> Inl e | Inr detail \<Rightarrow> subscript detail ''runId'')
        = Inl KeyError"
    by auto
  with assms(1,2) json_dumps_Inr[OF assms(3)] show ?thesis
    unfolding lambda_handler_def Let_def by simp
qed

lemma detail_not_a_mapping_raises:
  assumes "py_index (py_split CHR '':'' invoked_function_arn) 3 = Inr region"
    and "map_of environ ''DATA_LAKE_BUCKET'' = Some bucket"
    and "\<not> exceeds_str_digits event"
    and "subscript event ''detail'' = Inr detail"
    and "\<forall>d. detail \<noteq> JObj d"
  shows "lambda_handler session invoked_function_arn environ event store = Some (Inl TypeError, store)"
proof -
  from assms(5) have "subscript detail ''runId'' = Inl TypeError"
    by (cases detail) simp_all
  with assms(4)
  have "(case subscript event ''detail'' of Inl e \<Rightarrow> Inl e | Inr detail \<Rightarrow> subscript detail ''runId'')
        = Inl TypeError"
    by simp
  with assms(1,2) json_dumps_Inr[OF assms(3)] show ?thesis
    unfolding lambda_handler_def Let_def by simp
qed

text \<open>
  Claim C6: an inbound event whose \<^verbatim>\<open>detail\<close> has no \<^verbatim>\<open>runId\<close> gets the structured result
  with \<^verbatim>\<open>statusCode\<close> 400 and not an internal exception. The handler catches \<open>KeyError\<close>
  only. So it does return the 400 result when \<^verbatim>\<open>detail\<close> is absent or is a mapping
  without \<^verbatim>\<open>runId\<close> (lemma \<open>missing_run_id_is_400\<close>); but a \<^verbatim>\<open>detail\<close> that is not a
  mapping makes the subscript raise \<open>TypeError\<close>, which leaves the handler (lemma
  \<open>detail_not_a_mapping_raises\<close>). Here \<^verbatim>\<open>detail\<close> is \<^verbatim>\<open>null\<close>, a string and a list.
\<close>

theorem detail_without_run_id_raises_type_error:
  "lambda_handler no_stream_logs ''arn:aws:lambda:us-east-1:123456789012:function:manifest''
     [(''DATA_LAKE_BUCKET'', ''lake''), (''S3_PREFIX'', ''manifest'')]
     (JObj [(''source'', JStr ''aws.omics''), (''detail'', JNull)]) []
   = Some (Inl TypeError, [])
   \<and> lambda_handler no_stream_logs ''arn:aws:lambda:us-east-1:123456789012:function:manifest''
     [(''DATA_LAKE_BUCKET'', ''lake''), (''S3_PREFIX'', ''manifest'')]
     (JObj [(''source'', JStr ''aws.omics''), (''detail'', JStr ''COMPLETED'')]) []
   = Some (Inl TypeError, [])
   \<and> lambda_handler no_stream_logs ''arn:aws:lambda:us-east-1:123456789012:function:manifest''
     [(''DATA_LAKE_BUCKET'', ''lake''), (''S3_PREFIX'', ''manifest'')]
     (JObj [(''source'', JStr ''aws.omics''), (''detail'', JList [])]) []
   = Some (Inl TypeError, [])"
  by code_simp

text \<open>
  Claim C7, as amended. When the run identifier is there and the stream lookup returns
  the empty sequence, the invocation fails by an exception that leaves the handler:
  \<open>IndexError\<close>, from taking the first stream (or, for an inbound event that cannot be
  logged, \<open>ValueError\<close> before the lookup is made). Nothing is put to the object store
  and no result is returned, neither a success nor a structured failure. The handler
  has two results only, 200 and 400 (lemma \<open>lambda_handler_status_codes\<close>).
\<close>

theorem empty_stream_lookup_raises:
  assumes "py_index (py_split CHR '':'' invoked_function_arn) 3 = Inr region"
    and "map_of environ ''DATA_LAKE_BUCKET'' = Some bucket"
    and "subscript event ''detail'' = Inr detail"
    and "subscript detail ''runId'' = Inr run_id"
    and "find_log_streams_by_prefix session ''/aws/omics/WorkflowLog'' (''manifest/run/'' @ str_text run_id)
           region (Some 10) ''LogStreamName'' True None = Some []"
  shows "lambda_handler session invoked_function_arn environ event store
         = Some (Inl (if exceeds_str_digits event then ValueError else IndexError), store)"
proof (cases "exceeds_str_digits event")
  case True
  with lambda_handler_exceeds[OF assms(1,2) True] show ?thesis by simp
next
  case False
  with assms(5) show ?thesis
    by (simp add: lambda_handler_with_run_id[OF assms(1,2) False assms(3,4)] py_index_def)
qed

theorem empty_stream_lookup_raises_witness:
  "find_log_streams_by_prefix no_stream_logs ''/aws/omics/WorkflowLog''
     (''manifest/run/'' @ str_text (JStr ''4408708'')) ''us-east-1'' (Some 10) ''LogStreamName'' True None
   = Some []
   \<and> lambda_handler no_stream_logs ''arn:aws:lambda:us-east-1:123456789012:function:manifest''
     [(''DATA_LAKE_BUCKET'', ''lake''), (''S3_PREFIX'', ''manifest'')]
     (JObj [(''detail'', JObj [(''runId'', JStr ''4408708'')])])
     [(''lake'', ''manifest/runs/1.json'', JNull)]
   = Some (Inl IndexError, [(''lake'', ''manifest/runs/1.json'', JNull)])"
proof
  show f: "find_log_streams_by_prefix no_stream_logs ''/aws/omics/WorkflowLog''
     (''manifest/run/'' @ str_text (JStr ''4408708'')) ''us-east-1'' (Some 10) ''LogStreamName'' True None
   = Some []"
    by code_simp
  have "lambda_handler no_stream_logs ''arn:aws:lambda:us-east-1:123456789012:function:manifest''
     [(''DATA_LAKE_BUCKET'', ''lake''), (''S3_PREFIX'', ''manifest'')]
     (JObj [(''detail'', JObj [(''runId'', JStr ''4408708'')])])
     [(''lake'', ''manifest/runs/1.json'', JNull)]
   = Some (Inl (if exceeds_str_digits (JObj [(''detail'', JObj [(''runId'', JStr ''4408708'')])])
                then ValueError else IndexError),
           [(''lake'', ''manifest/runs/1.json'', JNull)])"
  proof (rule empty_stream_lookup_raises[OF _ _ _ _ f])
    show "py_index (py_split CHR '':'' ''arn:aws:lambda:us-east-1:123456789012:function:manifest'') 3
        = Inr ''us-east-1''"
      by code_simp
    show "map_of [(''DATA_LAKE_BUCKET'', ''lake''), (''S3_PREFIX'', ''manifest'')] ''DATA_LAKE_BUCKET''
        = Some ''lake''"
      by simp
    show "subscript (JObj [(''detail'', JObj [(''runId'', JStr ''4408708'')])]) ''detail''
          = Inr (JObj [(''runId'', JStr ''4408708'')])"
      by simp
    show "subscript (JObj [(''runId'', JStr ''4408708'')]) ''runId'' = Inr (JStr ''4408708'')"
      by simp
  qed
  then show "lambda_handler no_stream_logs ''arn:aws:lambda:us-east-1:123456789012:function:manifest''
     [(''DATA_LAKE_BUCKET'', ''lake''), (''S3_PREFIX'', ''manifest'')]
     (JObj [(''detail'', JObj [(''runId'', JStr ''4408708'')])])
     [(''lake'', ''manifest/runs/1.json'', JNull)]
   = Some (Inl IndexError, [(''lake'', ''manifest/runs/1.json'', JNull)])"
    by simp
qed

text \<open>
  Claim C7 as stated has the handler return a result with \<^verbatim>\<open>statusCode\<close> 500; it returns
  nothing and raises.
\<close>

theorem empty_stream_lookup_is_no_500:
  "lambda_handler no_stream_logs ''arn:aws:lambda:us-east-1:123456789012:function:manifest''
     [(''DATA_LAKE_BUCKET'', ''lake''), (''S3_PREFIX'', ''manifest'')]
     (JObj [(''detail'', JObj [(''runId'', JStr ''4408708'')])]) []
   = Some (Inl IndexError, [])"
  by code_simp

section \<open>Where the handler writes\<close>

lemma expected_put_via_message:
  "map (expected_put bucket prefix run_id_text) evs
   = map (\<lambda>m. expected_put bucket prefix run_id_text \<lparr>timestamp = 0, message = m\<rparr>) (map message evs)"
  by (simp add: expected_put_def)

lemma expected_puts_same_messages:
  assumes "map message evs2 = map message evs"
  shows "map (expected_put bucket prefix run_id_text) evs2 = map (expected_put bucket prefix run_id_text) evs"
  unfolding expected_put_via_message[of bucket prefix run_id_text evs2]
    expected_put_via_message[of bucket prefix run_id_text evs] assms ..

lemma run_levelD:
  assumes "run_level ev"
  obtains m arn where "message ev = Inr m" and "subscript m ''arn'' = Inr arn" and "classify arn = Inr Run"
  using assms by (auto simp: run_level_def split: sum.splits)

lemma run_level_not_task_level: "run_level ev \<Longrightarrow> \<not> task_level ev"
  by (auto simp: run_level_def task_level_def split: sum.splits)

lemma expected_put_kinds:
  assumes "expected_put bucket prefix run_id_text ev = Inr put"
  shows "(run_level ev \<and> (\<exists>m content out. message ev = Inr m
             \<and> convert_data_types m RUN_MANIFEST_SCHEMA = Inr (content, out)
             \<and> put = (bucket, destination_key prefix ''runs'' run_id_text, content)))
       \<or> (task_level ev \<and> (\<exists>m task_id content out. message ev = Inr m
             \<and> task_identifier ev = Inr task_id
             \<and> convert_data_types m TASK_MANIFEST_SCHEMA = Inr (content, out)
             \<and> put = (bucket, destination_key prefix ''tasks'' task_id, content)))"
proof -
  from assms obtain m where m: "message ev = Inr m"
    by (cases "message ev") (simp_all add: expected_put_def)
  from assms m obtain logged where p: "py_str m = Inr logged"
    by (cases "py_str m") (simp_all add: expected_put_def)
  from assms m p obtain arn where a: "subscript m ''arn'' = Inr arn"
    by (cases "subscript m ''arn''") (simp_all add: expected_put_def)
  from assms m p a obtain kind where k: "classify arn = Inr kind"
    by (cases "classify arn") (simp_all add: expected_put_def)
  show ?thesis
  proof (cases kind)
    case Run
    with assms m p a k obtain content where c: "stored_content m RUN_MANIFEST_SCHEMA = Inr content"
      and "put = (bucket, destination_key prefix ''runs'' run_id_text, content)"
      by (cases "stored_content m RUN_MANIFEST_SCHEMA") (simp_all add: expected_put_def)
    moreover from c obtain out where "convert_data_types m RUN_MANIFEST_SCHEMA = Inr (content, out)"
      by (auto simp: stored_content_Inr)
    moreover from m a k Run have "run_level ev" by (simp add: run_level_def)
    ultimately show ?thesis using m by blast
  next
    case Task
    with assms m p a k obtain task_id where t: "task_id_of arn = Inr task_id"
      by (cases "task_id_of arn") (simp_all add: expected_put_def)
    with assms m p a k Task obtain content where c: "stored_content m TASK_MANIFEST_SCHEMA = Inr content"
      and "put = (bucket, destination_key prefix ''tasks'' task_id, content)"
      by (cases "stored_content m TASK_MANIFEST_SCHEMA") (simp_all add: expected_put_def)
    moreover from c obtain out where "convert_data_types m TASK_MANIFEST_SCHEMA = Inr (content, out)"
      by (auto simp: stored_content_Inr)
    moreover from m a k Task have "task_level ev" by (simp add: task_level_def)
    moreover from m a t have "task_identifier ev = Inr task_id" by (simp add: task_identifier_def)
    ultimately show ?thesis using m by blast
  next
    case Unknown
    with assms m p a k show ?thesis by (simp add: expected_put_def)
  qed
qed

lemma expected_put_run_level:
  assumes "run_level ev" and "message ev = Inr m" and "\<not> exceeds_str_digits m"
  shows "\<exists>content out. convert_data_types m RUN_MANIFEST_SCHEMA = Inr (content, out)
           \<and> expected_put bucket prefix run_id_text ev
               = Inr (bucket, destination_key prefix ''runs'' run_id_text, content)"
proof -
  from assms(1,2) obtain arn where a: "subscript m ''arn'' = Inr arn" and c: "classify arn = Inr Run"
    by (auto elim: run_levelD)
  from stored_content_run_total[OF assms(3)] obtain content out
    where "convert_data_types m RUN_MANIFEST_SCHEMA = Inr (content, out)"
      and "stored_content m RUN_MANIFEST_SCHEMA = Inr content"
    by blast
  with assms(2,3) a c show ?thesis by (simp add: expected_put_def py_str_def)
qed

lemma puts_made_all2:
  "list_all2 (\<lambda>x put. f x = Inr put) (take (length (puts_made (map f xs))) xs) (puts_made (map f xs))"
proof (induction xs)
  case Nil
  then show ?case by simp
next
  case (Cons x xs)
  then show ?case by (cases "f x") simp_all
qed

lemma puts_made_all_Inr:
  "(\<forall>r\<in>set rs. \<exists>put. r = Inr put) \<Longrightarrow> first_raised rs = None \<and> length (puts_made rs) = length rs"
  by (induction rs rule: puts_made.induct) auto

lemma destination_key_runs_tasks:
  "destination_key prefix ''runs'' x \<noteq> destination_key prefix ''tasks'' y"
  by (simp add: destination_key_def)

lemma s3_object_app:
  "s3_object (xs @ ys) bucket key =
     (case s3_object ys bucket key of Some c \<Rightarrow> Some c | None \<Rightarrow> s3_object xs bucket key)"
  by (induction xs) (auto split: option.splits)

lemma last_run_level_put:
  assumes "list_all2 (\<lambda>ev put. expected_put bucket prefix run_id_text ev = Inr put) evs puts"
  shows "(filter run_level evs = [] \<longrightarrow>
            s3_object puts bucket (destination_key prefix ''runs'' run_id_text) = None)
       \<and> (filter run_level evs \<noteq> [] \<longrightarrow>
            (\<exists>m content out. message (last (filter run_level evs)) = Inr m
               \<and> convert_data_types m RUN_MANIFEST_SCHEMA = Inr (content, out)
               \<and> s3_object puts bucket (destination_key prefix ''runs'' run_id_text) = Some content))"
  using assms
proof (induction evs puts rule: list_all2_induct)
  case Nil
  then show ?case by simp
next
  case (Cons ev evs put puts)
  let ?k = "destination_key prefix ''runs'' run_id_text"
  show ?case
  proof (cases "filter run_level evs = []")
    case False
    with Cons.IH obtain m content out where "message (last (filter run_level evs)) = Inr m"
      and "convert_data_types m RUN_MANIFEST_SCHEMA = Inr (content, out)"
      and "s3_object puts bucket ?k = Some content"
      by blast
    moreover have "last (filter run_level (ev # evs)) = last (filter run_level evs)"
      using False by simp
    moreover obtain pb pk pc where "put = (pb, pk, pc)" by (cases put)
    ultimately show ?thesis using False by auto
  next
    case True
    with Cons.IH have none: "s3_object puts bucket ?k = None" by simp
    show ?thesis
    proof (cases "run_level ev")
      case r: True
      from expected_put_kinds[OF Cons.hyps(1)] r run_level_not_task_level[OF r]
      obtain m content out where "message ev = Inr m"
        and "convert_data_types m RUN_MANIFEST_SCHEMA = Inr (content, out)" and "put = (bucket, ?k, content)"
        by blast
      with none True r show ?thesis by auto
    next
      case r: False
      from expected_put_kinds[OF Cons.hyps(1)] r obtain task_id content
        where "put = (bucket, destination_key prefix ''tasks'' task_id, content)"
        by blast
      with none True r destination_key_runs_tasks[of prefix run_id_text task_id] show ?thesis by simp
    qed
  qed
qed

text \<open>
  Claim C5, as amended. The puts of an invocation are those of the log events before
  the first that raises, in order, each to the configured bucket at the key
  \<^verbatim>\<open><prefix>/<namespace>/<identifier>.json\<close>. For a task-level record the namespace is
  \<^verbatim>\<open>tasks\<close> and the identifier is the record's own task id, the text after the last \<^verbatim>\<open>/\<close>
  of its \<^verbatim>\<open>arn\<close>. For a run-level record the namespace is \<^verbatim>\<open>runs\<close> and the identifier is
  the \<^verbatim>\<open>runId\<close> of the inbound event, not the run id of the record's \<^verbatim>\<open>arn\<close>. Nothing else
  enters: against any log service that returns the same messages in the same order,
  whatever the time stamps, the stream names and the content of the object store, the
  invocation ends the same way and makes the same puts, to the same keys with the same
  content.
\<close>

theorem destination_key_deterministic:
  assumes region: "py_index (py_split CHR '':'' invoked_function_arn) 3 = Inr region"
    and bucket: "map_of environ ''DATA_LAKE_BUCKET'' = Some bucket"
    and logged: "\<not> exceeds_str_digits event"
    and detail: "subscript event ''detail'' = Inr detail"
    and run_id: "subscript detail ''runId'' = Inr run_id"
    and streams: "find_log_streams_by_prefix session ''/aws/omics/WorkflowLog''
                    (''manifest/run/'' @ str_text run_id) region (Some 10) ''LogStreamName'' True None
                  = Some (stream # others)"
    and fetched: "get_log_events_by_stream_prefix session ''/aws/omics/WorkflowLog''
                    (logStreamName stream) region None None 1 None = Some buckets"
  defines "prefix \<equiv> environ_get environ ''S3_PREFIX'' []"
    and "evs \<equiv> concat (map snd buckets)"
    and "puts \<equiv> puts_made (map (expected_put bucket (environ_get environ ''S3_PREFIX'' []) (str_text run_id))
                              (concat (map snd buckets)))"
    and "raised \<equiv> first_raised (map (expected_put bucket (environ_get environ ''S3_PREFIX'' []) (str_text run_id))
                                  (concat (map snd buckets)))"
  shows "lambda_handler session invoked_function_arn environ event store
           = Some (invocation_result raised, store @ puts)
       \<and> list_all2 (\<lambda>ev put. \<exists>namespace identifier content.
              put = (bucket, destination_key prefix namespace identifier, content)
            \<and> ((run_level ev \<and> namespace = ''runs'' \<and> identifier = str_text run_id)
               \<or> (task_level ev \<and> namespace = ''tasks'' \<and> task_identifier ev = Inr identifier)))
           (take (length puts) evs) puts
       \<and> (\<forall>session2 stream2 others2 buckets2 store2.
            find_log_streams_by_prefix session2 ''/aws/omics/WorkflowLog''
                (''manifest/run/'' @ str_text run_id) region (Some 10) ''LogStreamName'' True None
              = Some (stream2 # others2)
          \<and> get_log_events_by_stream_prefix session2 ''/aws/omics/WorkflowLog''
                (logStreamName stream2) region None None 1 None = Some buckets2
          \<and> map message (concat (map snd buckets2)) = map message evs
          \<longrightarrow> lambda_handler session2 invoked_function_arn environ event store2
                = Some (invocation_result raised, store2 @ puts))"
proof (intro conjI allI impI)
  show "lambda_handler session invoked_function_arn environ event store
           = Some (invocation_result raised, store @ puts)"
    unfolding raised_def puts_def
    by (rule lambda_handler_stores[OF region bucket logged detail run_id streams fetched])
next
  have "list_all2 (\<lambda>ev put. expected_put bucket prefix (str_text run_id) ev = Inr put)
          (take (length puts) evs) puts"
    unfolding puts_def evs_def prefix_def by (rule puts_made_all2)
  then show "list_all2 (\<lambda>ev put. \<exists>namespace identifier content.
              put = (bucket, destination_key prefix namespace identifier, content)
            \<and> ((run_level ev \<and> namespace = ''runs'' \<and> identifier = str_text run_id)
               \<or> (task_level ev \<and> namespace = ''tasks'' \<and> task_identifier ev = Inr identifier)))
           (take (length puts) evs) puts"
  proof (rule list_all2_mono)
    fix ev put
    assume "expected_put bucket prefix (str_text run_id) ev = Inr put"
    from expected_put_kinds[OF this]
    show "\<exists>namespace identifier content.
              put = (bucket, destination_key prefix namespace identifier, content)
            \<and> ((run_level ev \<and> namespace = ''runs'' \<and> identifier = str_text run_id)
               \<or> (task_level ev \<and> namespace = ''tasks'' \<and> task_identifier ev = Inr identifier))"
      by blast
  qed
next
  fix session2 stream2 others2 buckets2 store2
  assume a: "find_log_streams_by_prefix session2 ''/aws/omics/WorkflowLog''
                (''manifest/run/'' @ str_text run_id) region (Some 10) ''LogStreamName'' True None
              = Some (stream2 # others2)
          \<and> get_log_events_by_stream_prefix session2 ''/aws/omics/WorkflowLog''
                (logStreamName stream2) region None None 1 None = Some buckets2
          \<and> map message (concat (map snd buckets2)) = map message evs"
  then have s2: "find_log_streams_by_prefix session2 ''/aws/omics/WorkflowLog''
                (''manifest/run/'' @ str_text run_id) region (Some 10) ''LogStreamName'' True None
              = Some (stream2 # others2)"
    and f2: "get_log_events_by_stream_prefix session2 ''/aws/omics/WorkflowLog''
                (logStreamName stream2) region None None 1 None = Some buckets2"
    and m2: "map message (concat (map snd buckets2)) = map message (concat (map snd buckets))"
    unfolding evs_def by blast+
  show "lambda_handler session2 invoked_function_arn environ event store2
                = Some (invocation_result raised, store2 @ puts)"
    unfolding raised_def puts_def
      expected_puts_same_messages[OF m2, symmetric]
    by (rule lambda_handler_stores[OF region bucket logged detail run_id s2 f2])
qed

text \<open>
  One invocation against \<open>manifest_logs\<close>, step by step: the inbound event names run
  4408708, the stream holds two run manifests and one task manifest.
\<close>

lemma scenario_region:
  "py_index (py_split CHR '':'' ''arn:aws:lambda:us-east-1:123456789012:function:manifest'') 3
   = Inr ''us-east-1''"
  by code_simp

lemma scenario_bucket:
  "map_of [(''DATA_LAKE_BUCKET'', ''lake''), (''S3_PREFIX'', ''manifest'')] ''DATA_LAKE_BUCKET'' = Some ''lake''"
  by simp

lemma scenario_prefix:
  "environ_get [(''DATA_LAKE_BUCKET'', ''lake''), (''S3_PREFIX'', ''manifest'')] ''S3_PREFIX'' [] = ''manifest''"
  by (simp add: environ_get_def)

lemma scenario_logged:
  "\<not> exceeds_str_digits (JObj [(''detail'', JObj [(''runId'', JStr rid)])])"
  by simp

lemma scenario_detail:
  "subscript (JObj [(''detail'', JObj [(''runId'', JStr rid)])]) ''detail'' = Inr (JObj [(''runId'', JStr rid)])"
  by simp

lemma scenario_run_id:
  "subscript (JObj [(''runId'', JStr rid)]) ''runId'' = Inr (JStr rid)"
  by simp

lemma manifest_scenario_streams:
  "find_log_streams_by_prefix manifest_logs ''/aws/omics/WorkflowLog''
     (''manifest/run/'' @ str_text (JStr ''4408708'')) ''us-east-1'' (Some 10) ''LogStreamName'' True None
   = Some [\<lparr>logStreamName = ''manifest/run/4408708/11aa'', lastEventTimestamp = 30\<rparr>]"
  by code_simp

lemma manifest_scenario_events:
  "get_log_events_by_stream_prefix manifest_logs ''/aws/omics/WorkflowLog''
     (logStreamName \<lparr>logStreamName = ''manifest/run/4408708/11aa'', lastEventTimestamp = 30\<rparr>)
     ''us-east-1'' None None 1 None
   = Some [(''manifest/run/4408708/11aa'',
       [\<lparr>timestamp = 10, message = Inr (JObj
            [(''arn'', JStr ''arn:aws:omics:us-east-1:123456789012:run/1111111''),
             (''status'', JStr ''RUNNING'')])\<rparr>,
        \<lparr>timestamp = 20, message = Inr (JObj
            [(''arn'', JStr ''arn:aws:omics:us-east-1:123456789012:task/7654321''),
             (''cpus'', JStr ''4''), (''run'', JInt 4408708)])\<rparr>,
        \<lparr>timestamp = 30, message = Inr (JObj
            [(''arn'', JStr ''arn:aws:omics:us-east-1:123456789012:run/4408708''),
             (''status'', JStr ''COMPLETED'')])\<rparr>])]"
  by code_simp

lemma manifest_scenario_put1:
  "expected_put ''lake'' ''manifest'' ''4408708''
     \<lparr>timestamp = 10, message = Inr (JObj
            [(''arn'', JStr ''arn:aws:omics:us-east-1:123456789012:run/1111111''),
             (''status'', JStr ''RUNNING'')])\<rparr>
   = Inr (''lake'', ''manifest/runs/4408708.json'',
          JObj [(''arn'', JStr ''arn:aws:omics:us-east-1:123456789012:run/1111111''),
                (''status'', JStr ''RUNNING'')])"
  by code_simp

lemma manifest_scenario_put2:
  "expected_put ''lake'' ''manifest'' ''4408708''
     \<lparr>timestamp = 20, message = Inr (JObj
            [(''arn'', JStr ''arn:aws:omics:us-east-1:123456789012:task/7654321''),
             (''cpus'', JStr ''4''), (''run'', JInt 4408708)])\<rparr>
   = Inr (''lake'', ''manifest/tasks/7654321.json'',
          JObj [(''arn'', JStr ''arn:aws:omics:us-east-1:123456789012:task/7654321''),
                (''cpus'', JInt 4), (''run'', JStr ''4408708'')])"
  by code_simp

lemma manifest_scenario_put3:
  "expected_put ''lake'' ''manifest'' ''4408708''
     \<lparr>timestamp = 30, message = Inr (JObj
            [(''arn'', JStr ''arn:aws:omics:us-east-1:123456789012:run/4408708''),
             (''status'', JStr ''COMPLETED'')])\<rparr>
   = Inr (''lake'', ''manifest/runs/4408708.json'',
          JObj [(''arn'', JStr ''arn:aws:omics:us-east-1:123456789012:run/4408708''),
                (''status'', JStr ''COMPLETED'')])"
  by code_simp

theorem destination_key_deterministic_witness:
  "lambda_handler manifest_logs ''arn:aws:lambda:us-east-1:123456789012:function:manifest''
       [(''DATA_LAKE_BUCKET'', ''lake''), (''S3_PREFIX'', ''manifest'')]
       (JObj [(''detail'', JObj [(''runId'', JStr ''4408708'')])]) []
     = Some (Inr \<lparr>statusCode = 200, body = ''Manifest ETL complete''\<rparr>,
        [(''lake'', ''manifest/runs/4408708.json'',
          JObj [(''arn'', JStr ''arn:aws:omics:us-east-1:123456789012:run/1111111''),
                (''status'', JStr ''RUNNING'')]),
         (''lake'', ''manifest/tasks/7654321.json'',
          JObj [(''arn'', JStr ''arn:aws:omics:us-east-1:123456789012:task/7654321''),
                (''cpus'', JInt 4), (''run'', JStr ''4408708'')]),
         (''lake'', ''manifest/runs/4408708.json'',
          JObj [(''arn'', JStr ''arn:aws:omics:us-east-1:123456789012:run/4408708''),
                (''status'', JStr ''COMPLETED'')])])
   \<and> lambda_handler manifest_logs ''arn:aws:lambda:us-east-1:123456789012:function:manifest''
       [(''DATA_LAKE_BUCKET'', ''lake''), (''S3_PREFIX'', ''manifest'')]
       (JObj [(''detail'', JObj [(''runId'', JStr ''4408708'')])])
       [(''lake'', ''manifest/tasks/7654321.json'', JNull)]
     = Some (Inr \<lparr>statusCode = 200, body = ''Manifest ETL complete''\<rparr>,
        [(''lake'', ''manifest/tasks/7654321.json'', JNull),
         (''lake'', ''manifest/runs/4408708.json'',
          JObj [(''arn'', JStr ''arn:aws:omics:us-east-1:123456789012:run/1111111''),
                (''status'', JStr ''RUNNING'')]),
         (''lake'', ''manifest/tasks/7654321.json'',
          JObj [(''arn'', JStr ''arn:aws:omics:us-east-1:123456789012:task/7654321''),
                (''cpus'', JInt 4), (''run'', JStr ''4408708'')]),
         (''lake'', ''manifest/runs/4408708.json'',
          JObj [(''arn'', JStr ''arn:aws:omics:us-east-1:123456789012:run/4408708''),
                (''status'', JStr ''COMPLETED'')])])"
proof -
  note main = destination_key_deterministic[OF scenario_region scenario_bucket scenario_logged
      scenario_detail scenario_run_id manifest_scenario_streams manifest_scenario_events]
  from main[where store = "[]", THEN conjunct1]
  have h1: "lambda_handler manifest_logs ''arn:aws:lambda:us-east-1:123456789012:function:manifest''
       [(''DATA_LAKE_BUCKET'', ''lake''), (''S3_PREFIX'', ''manifest'')]
       (JObj [(''detail'', JObj [(''runId'', JStr ''4408708'')])]) []
     = Some (Inr \<lparr>statusCode = 200, body = ''Manifest ETL complete''\<rparr>,
        [(''lake'', ''manifest/runs/4408708.json'',
          JObj [(''arn'', JStr ''arn:aws:omics:us-east-1:123456789012:run/1111111''),
                (''status'', JStr ''RUNNING'')]),
         (''lake'', ''manifest/tasks/7654321.json'',
          JObj [(''arn'', JStr ''arn:aws:omics:us-east-1:123456789012:task/7654321''),
                (''cpus'', JInt 4), (''run'', JStr ''4408708'')]),
         (''lake'', ''manifest/runs/4408708.json'',
          JObj [(''arn'', JStr ''arn:aws:omics:us-east-1:123456789012:run/4408708''),
                (''status'', JStr ''COMPLETED'')])])"
    by (simp add: scenario_prefix manifest_scenario_put1 manifest_scenario_put2 manifest_scenario_put3
        invocation_result_def)
  from main[where store = "[]", THEN conjunct2, THEN conjunct2, rule_format,
      of manifest_logs "\<lparr>logStreamName = ''manifest/run/4408708/11aa'', lastEventTimestamp = 30\<rparr>" "[]"
         "[(''manifest/run/4408708/11aa'',
       [\<lparr>timestamp = 10, message = Inr (JObj
            [(''arn'', JStr ''arn:aws:omics:us-east-1:123456789012:run/1111111''),
             (''status'', JStr ''RUNNING'')])\<rparr>,
        \<lparr>timestamp = 20, message = Inr (JObj
            [(''arn'', JStr ''arn:aws:omics:us-east-1:123456789012:task/7654321''),
             (''cpus'', JStr ''4''), (''run'', JInt 4408708)])\<rparr>,
        \<lparr>timestamp = 30, message = Inr (JObj
            [(''arn'', JStr ''arn:aws:omics:us-east-1:123456789012:run/4408708''),
             (''status'', JStr ''COMPLETED'')])\<rparr>])]"
         "[(''lake'', ''manifest/tasks/7654321.json'', JNull)]"]
    manifest_scenario_streams manifest_scenario_events
  have h2: "lambda_handler manifest_logs ''arn:aws:lambda:us-east-1:123456789012:function:manifest''
       [(''DATA_LAKE_BUCKET'', ''lake''), (''S3_PREFIX'', ''manifest'')]
       (JObj [(''detail'', JObj [(''runId'', JStr ''4408708'')])])
       [(''lake'', ''manifest/tasks/7654321.json'', JNull)]
     = Some (Inr \<lparr>statusCode = 200, body = ''Manifest ETL complete''\<rparr>,
        [(''lake'', ''manifest/tasks/7654321.json'', JNull),
         (''lake'', ''manifest/runs/4408708.json'',
          JObj [(''arn'', JStr ''arn:aws:omics:us-east-1:123456789012:run/1111111''),
                (''status'', JStr ''RUNNING'')]),
         (''lake'', ''manifest/tasks/7654321.json'',
          JObj [(''arn'', JStr ''arn:aws:omics:us-east-1:123456789012:task/7654321''),
                (''cpus'', JInt 4), (''run'', JStr ''4408708'')]),
         (''lake'', ''manifest/runs/4408708.json'',
          JObj [(''arn'', JStr ''arn:aws:omics:us-east-1:123456789012:run/4408708''),
                (''status'', JStr ''COMPLETED'')])])"
    by (simp add: scenario_prefix manifest_scenario_put1 manifest_scenario_put2 manifest_scenario_put3
        invocation_result_def)
  from h1 h2 show ?thesis by (rule conjI)
qed

text \<open>
  Claim C5 as stated makes the key a function of the prefix, the namespace and the
  record's identifier. Against \<open>run_record_logs\<close>, whose stream holds the manifest of run
  1111111, an inbound event for run 4408708 and one for run 5 put that same record at
  two different keys, and neither key names run 1111111.
\<close>

theorem same_record_lands_on_two_run_keys:
  "lambda_handler run_record_logs ''arn:aws:lambda:us-east-1:123456789012:function:manifest''
       [(''DATA_LAKE_BUCKET'', ''lake''), (''S3_PREFIX'', ''manifest'')]
       (JObj [(''detail'', JObj [(''runId'', JStr ''4408708'')])]) []
     = Some (Inr \<lparr>statusCode = 200, body = ''Manifest ETL complete''\<rparr>,
        [(''lake'', ''manifest/runs/4408708.json'',
          JObj [(''arn'', JStr ''arn:aws:omics:us-east-1:123456789012:run/1111111''),
                (''status'', JStr ''COMPLETED'')])])
   \<and> lambda_handler run_record_logs ''arn:aws:lambda:us-east-1:123456789012:function:manifest''
       [(''DATA_LAKE_BUCKET'', ''lake''), (''S3_PREFIX'', ''manifest'')]
       (JObj [(''detail'', JObj [(''runId'', JStr ''5'')])]) []
     = Some (Inr \<lparr>statusCode = 200, body = ''Manifest ETL complete''\<rparr>,
        [(''lake'', ''manifest/runs/5.json'',
          JObj [(''arn'', JStr ''arn:aws:omics:us-east-1:123456789012:run/1111111''),
                (''status'', JStr ''COMPLETED'')])])"
  by code_simp

text \<open>
  Claim C10. The log events of the stream are stored in order until one raises. Every
  run-level event among those stored is put to the configured bucket at the one key
  \<^verbatim>\<open><prefix>/runs/<runId>.json\<close> built from the \<^verbatim>\<open>runId\<close> of the inbound event, whatever run
  the record's own \<^verbatim>\<open>arn\<close> names, and holds the record coerced with the run schema. So
  when the invocation is over, the object at that key is the last run-level record
  stored (and what it was before, if none was). A run-level event whose message can be
  logged never raises: when the stream holds only such events, all of them are stored
  and the invocation succeeds.
\<close>

theorem run_manifests_share_the_event_run_id_key:
  assumes region: "py_index (py_split CHR '':'' invoked_function_arn) 3 = Inr region"
    and bucket: "map_of environ ''DATA_LAKE_BUCKET'' = Some bucket"
    and logged: "\<not> exceeds_str_digits event"
    and detail: "subscript event ''detail'' = Inr detail"
    and run_id: "subscript detail ''runId'' = Inr run_id"
    and streams: "find_log_streams_by_prefix session ''/aws/omics/WorkflowLog''
                    (''manifest/run/'' @ str_text run_id) region (Some 10) ''LogStreamName'' True None
                  = Some (stream # others)"
    and fetched: "get_log_events_by_stream_prefix session ''/aws/omics/WorkflowLog''
                    (logStreamName stream) region None None 1 None = Some buckets"
  defines "key_run \<equiv> destination_key (environ_get environ ''S3_PREFIX'' []) ''runs'' (str_text run_id)"
    and "evs \<equiv> concat (map snd buckets)"
    and "puts \<equiv> puts_made (map (expected_put bucket (environ_get environ ''S3_PREFIX'' []) (str_text run_id))
                              (concat (map snd buckets)))"
    and "raised \<equiv> first_raised (map (expected_put bucket (environ_get environ ''S3_PREFIX'' []) (str_text run_id))
                                  (concat (map snd buckets)))"
  shows "lambda_handler session invoked_function_arn environ event store
           = Some (invocation_result raised, store @ puts)
       \<and> (\<forall>i<length puts. run_level (evs ! i) \<longrightarrow>
            (\<exists>m content out. message (evs ! i) = Inr m
               \<and> convert_data_types m RUN_MANIFEST_SCHEMA = Inr (content, out)
               \<and> puts ! i = (bucket, key_run, content)))
       \<and> (filter run_level (take (length puts) evs) = [] \<longrightarrow>
            s3_object (store @ puts) bucket key_run = s3_object store bucket key_run)
       \<and> (filter run_level (take (length puts) evs) \<noteq> [] \<longrightarrow>
            (\<exists>m content out. message (last (filter run_level (take (length puts) evs))) = Inr m
               \<and> convert_data_types m RUN_MANIFEST_SCHEMA = Inr (content, out)
               \<and> s3_object (store @ puts) bucket key_run = Some content))
       \<and> ((\<forall>ev\<in>set evs. run_level ev \<and> (\<forall>m. message ev = Inr m \<longrightarrow> \<not> exceeds_str_digits m)) \<longrightarrow>
            raised = None \<and> length puts = length evs)"
proof (intro conjI)
  let ?prefix = "environ_get environ ''S3_PREFIX'' []"
  let ?f = "expected_put bucket ?prefix (str_text run_id)"
  show "lambda_handler session invoked_function_arn environ event store
           = Some (invocation_result raised, store @ puts)"
    unfolding raised_def puts_def
    by (rule lambda_handler_stores[OF region bucket logged detail run_id streams fetched])
  have all: "list_all2 (\<lambda>ev put. ?f ev = Inr put) (take (length puts) evs) puts"
    unfolding puts_def evs_def by (rule puts_made_all2)
  show "\<forall>i<length puts. run_level (evs ! i) \<longrightarrow>
            (\<exists>m content out. message (evs ! i) = Inr m
               \<and> convert_data_types m RUN_MANIFEST_SCHEMA = Inr (content, out)
               \<and> puts ! i = (bucket, key_run, content))"
  proof (intro allI impI)
    fix i
    assume i: "i < length puts" and r: "run_level (evs ! i)"
    from puts_made_nth[of i "map ?f evs"] i
    have il: "i < length (map ?f evs)" and ie: "map ?f evs ! i = Inr (puts ! i)"
      unfolding puts_def evs_def by blast+
    from il have "i < length evs" by simp
    with ie have "?f (evs ! i) = Inr (puts ! i)" by simp
    from expected_put_kinds[OF this] r run_level_not_task_level[OF r]
    show "\<exists>m content out. message (evs ! i) = Inr m
               \<and> convert_data_types m RUN_MANIFEST_SCHEMA = Inr (content, out)
               \<and> puts ! i = (bucket, key_run, content)"
      unfolding key_run_def by blast
  qed
  from last_run_level_put[OF all]
  have l0: "filter run_level (take (length puts) evs) = [] \<longrightarrow> s3_object puts bucket key_run = None"
    and l1: "filter run_level (take (length puts) evs) \<noteq> [] \<longrightarrow>
            (\<exists>m content out. message (last (filter run_level (take (length puts) evs))) = Inr m
               \<and> convert_data_types m RUN_MANIFEST_SCHEMA = Inr (content, out)
               \<and> s3_object puts bucket key_run = Some content)"
    unfolding key_run_def by blast+
  from l0 show "filter run_level (take (length puts) evs) = [] \<longrightarrow>
            s3_object (store @ puts) bucket key_run = s3_object store bucket key_run"
    by (simp add: s3_object_app)
  from l1 show "filter run_level (take (length puts) evs) \<noteq> [] \<longrightarrow>
            (\<exists>m content out. message (last (filter run_level (take (length puts) evs))) = Inr m
               \<and> convert_data_types m RUN_MANIFEST_SCHEMA = Inr (content, out)
               \<and> s3_object (store @ puts) bucket key_run = Some content)"
    by (auto simp: s3_object_app)
  show "(\<forall>ev\<in>set evs. run_level ev \<and> (\<forall>m. message ev = Inr m \<longrightarrow> \<not> exceeds_str_digits m)) \<longrightarrow>
            raised = None \<and> length puts = length evs"
  proof
    assume a: "\<forall>ev\<in>set evs. run_level ev \<and> (\<forall>m. message ev = Inr m \<longrightarrow> \<not> exceeds_str_digits m)"
    have "\<forall>r\<in>set (map ?f evs). \<exists>put. r = Inr put"
    proof
      fix r
      assume "r \<in> set (map ?f evs)"
      then obtain ev where ev: "ev \<in> set evs" and r: "r = ?f ev" by auto
      from a ev have rl: "run_level ev" and n: "\<forall>m. message ev = Inr m \<longrightarrow> \<not> exceeds_str_digits m"
        by blast+
      from rl obtain m where m: "message ev = Inr m" by (auto elim: run_levelD)
      with n have "\<not> exceeds_str_digits m" by blast
      from expected_put_run_level[OF rl m this, of bucket ?prefix "str_text run_id"] r
      show "\<exists>put. r = Inr put" by auto
    qed
    from puts_made_all_Inr[OF this] show "raised = None \<and> length puts = length evs"
      unfolding raised_def puts_def evs_def by simp
  qed
qed

text \<open>
  One invocation against \<open>partial_logs\<close>: the inbound event names run 4408708; the
  stream holds the manifest of run 1111111, the manifest of run 4408708, a record that
  is neither run nor task, and one more run manifest. The first two are put at the key
  of run 4408708, the third ends the invocation, and the object at that key is the
  second record.
\<close>

lemma partial_scenario_streams:
  "find_log_streams_by_prefix partial_logs ''/aws/omics/WorkflowLog''
     (''manifest/run/'' @ str_text (JStr ''4408708'')) ''us-east-1'' (Some 10) ''LogStreamName'' True None
   = Some [\<lparr>logStreamName = ''manifest/run/4408708/33cc'', lastEventTimestamp = 40\<rparr>]"
  by code_simp

lemma partial_scenario_events:
  "get_log_events_by_stream_prefix partial_logs ''/aws/omics/WorkflowLog''
     (logStreamName \<lparr>logStreamName = ''manifest/run/4408708/33cc'', lastEventTimestamp = 40\<rparr>)
     ''us-east-1'' None None 1 None
   = Some [(''manifest/run/4408708/33cc'',
       [\<lparr>timestamp = 10, message = Inr (JObj
            [(''arn'', JStr ''arn:aws:omics:us-east-1:123456789012:run/1111111''),
             (''status'', JStr ''RUNNING'')])\<rparr>,
        \<lparr>timestamp = 20, message = Inr (JObj
            [(''arn'', JStr ''arn:aws:omics:us-east-1:123456789012:run/4408708''),
             (''status'', JStr ''COMPLETED'')])\<rparr>,
        \<lparr>timestamp = 30, message = Inr (JObj
            [(''arn'', JStr ''arn:aws:omics:us-east-1:123456789012:workflow/55''),
             (''status'', JStr ''ACTIVE'')])\<rparr>,
        \<lparr>timestamp = 40, message = Inr (JObj
            [(''arn'', JStr ''arn:aws:omics:us-east-1:123456789012:run/4408708''),
             (''status'', JStr ''DELETED'')])\<rparr>])]"
  by code_simp

lemma partial_scenario_put1:
  "expected_put ''lake'' ''manifest'' ''4408708''
     \<lparr>timestamp = 10, message = Inr (JObj
            [(''arn'', JStr ''arn:aws:omics:us-east-1:123456789012:run/1111111''),
             (''status'', JStr ''RUNNING'')])\<rparr>
   = Inr (''lake'', ''manifest/runs/4408708.json'',
          JObj [(''arn'', JStr ''arn:aws:omics:us-east-1:123456789012:run/1111111''),
                (''status'', JStr ''RUNNING'')])"
  by code_simp

lemma partial_scenario_put2:
  "expected_put ''lake'' ''manifest'' ''4408708''
     \<lparr>timestamp = 20, message = Inr (JObj
            [(''arn'', JStr ''arn:aws:omics:us-east-1:123456789012:run/4408708''),
             (''status'', JStr ''COMPLETED'')])\<rparr>
   = Inr (''lake'', ''manifest/runs/4408708.json'',
          JObj [(''arn'', JStr ''arn:aws:omics:us-east-1:123456789012:run/4408708''),
                (''status'', JStr ''COMPLETED'')])"
  by code_simp

lemma partial_scenario_put3:
  "expected_put ''lake'' ''manifest'' ''4408708''
     \<lparr>timestamp = 30, message = Inr (JObj
            [(''arn'', JStr ''arn:aws:omics:us-east-1:123456789012:workflow/55''),
             (''status'', JStr ''ACTIVE'')])\<rparr>
   = Inl RuntimeError"
  by code_simp

theorem run_manifests_share_the_event_run_id_key_witness:
  "lambda_handler partial_logs ''arn:aws:lambda:us-east-1:123456789012:function:manifest''
       [(''DATA_LAKE_BUCKET'', ''lake''), (''S3_PREFIX'', ''manifest'')]
       (JObj [(''detail'', JObj [(''runId'', JStr ''4408708'')])]) []
     = Some (Inl RuntimeError,
        [(''lake'', ''manifest/runs/4408708.json'',
          JObj [(''arn'', JStr ''arn:aws:omics:us-east-1:123456789012:run/1111111''),
                (''status'', JStr ''RUNNING'')]),
         (''lake'', ''manifest/runs/4408708.json'',
          JObj [(''arn'', JStr ''arn:aws:omics:us-east-1:123456789012:run/4408708''),
                (''status'', JStr ''COMPLETED'')])])
   \<and> s3_object
        [(''lake'', ''manifest/runs/4408708.json'',
          JObj [(''arn'', JStr ''arn:aws:omics:us-east-1:123456789012:run/1111111''),
                (''status'', JStr ''RUNNING'')]),
         (''lake'', ''manifest/runs/4408708.json'',
          JObj [(''arn'', JStr ''arn:aws:omics:us-east-1:123456789012:run/4408708''),
                (''status'', JStr ''COMPLETED'')])]
        ''lake'' ''manifest/runs/4408708.json''
     = Some (JObj [(''arn'', JStr ''arn:aws:omics:us-east-1:123456789012:run/4408708''),
                   (''status'', JStr ''COMPLETED'')])"
proof
  note main = run_manifests_share_the_event_run_id_key[OF scenario_region scenario_bucket scenario_logged
      scenario_detail scenario_run_id partial_scenario_streams partial_scenario_events]
  from main[where store = "[]", THEN conjunct1]
  show "lambda_handler partial_logs ''arn:aws:lambda:us-east-1:123456789012:function:manifest''
       [(''DATA_LAKE_BUCKET'', ''lake''), (''S3_PREFIX'', ''manifest'')]
       (JObj [(''detail'', JObj [(''runId'', JStr ''4408708'')])]) []
     = Some (Inl RuntimeError,
        [(''lake'', ''manifest/runs/4408708.json'',
          JObj [(''arn'', JStr ''arn:aws:omics:us-east-1:123456789012:run/1111111''),
                (''status'', JStr ''RUNNING'')]),
         (''lake'', ''manifest/runs/4408708.json'',
          JObj [(''arn'', JStr ''arn:aws:omics:us-east-1:123456789012:run/4408708''),
                (''status'', JStr ''COMPLETED'')])])"
    by (simp add: scenario_prefix partial_scenario_put1 partial_scenario_put2 partial_scenario_put3
        invocation_result_def)
  show "s3_object
        [(''lake'', ''manifest/runs/4408708.json'',
          JObj [(''arn'', JStr ''arn:aws:omics:us-east-1:123456789012:run/1111111''),
                (''status'', JStr ''RUNNING'')]),
         (''lake'', ''manifest/runs/4408708.json'',
          JObj [(''arn'', JStr ''arn:aws:omics:us-east-1:123456789012:run/4408708''),
                (''status'', JStr ''COMPLETED'')])]
        ''lake'' ''manifest/runs/4408708.json''
     = Some (JObj [(''arn'', JStr ''arn:aws:omics:us-east-1:123456789012:run/4408708''),
                   (''status'', JStr ''COMPLETED'')])"
    by simp
qed

end
